theory Spec2Isabelle
  imports Complex_Main
begin

section \<open>Values, settlement and the host objects\<close>

text \<open>
  The development embeds \<^verbatim>\<open>src/promises/AbortablePromise.ts\<close>: the constructor, the
  closures it creates, the instance methods and the three chaining methods; the static
  helpers \<^verbatim>\<open>fn\<close>, \<^verbatim>\<open>resolve\<close> and \<^verbatim>\<open>reject\<close> are not needed below. The class extends
  the host's \<^verbatim>\<open>Promise\<close> and uses the host's \<^verbatim>\<open>AbortController\<close>, \<^verbatim>\<open>AbortSignal\<close>
  and \<^verbatim>\<open>setTimeout\<close>; their observable behaviour is written out as explicit state. The
  store holds the instances of the class and, beside them, the host's own promises, which
  a work function can return (an \<^verbatim>\<open>async\<close> work function always does).
\<close>

text \<open>
  Modelled from the spec: \<^verbatim>\<open>TimeoutError\<close> and \<^verbatim>\<open>CancelledError\<close> of \<^verbatim>\<open>../errors\<close>
  and the value built by \<^verbatim>\<open>withResolved\<close> of \<^verbatim>\<open>./resolve.js\<close> are not part of the
  source at hand. The spec describes them as a timeout fault carrying the configured
  duration, a cancellation fault without payload and a tagged "resolved" marker carrying
  the value; they are the constructors \<open>VTimeoutError\<close>, \<open>VCancelledError\<close> and
  \<open>VResolved\<close> of the type of JavaScript values that can be a fulfilment value, a
  rejection reason or an abort reason. \<open>VAbortError\<close> is the host's default
  \<^verbatim>\<open>DOMException\<close>, which \<^verbatim>\<open>AbortController.abort\<close> substitutes for an \<^verbatim>\<open>undefined\<close>
  reason. Thenables are not values of this type: a handler or a work function that
  settles with a promise is outside the model.
\<close>

text \<open>
  A JavaScript number as far as the \<^verbatim>\<open>timeout\<close> option needs it: a finite number, one of
  the two infinities, or \<^verbatim>\<open>NaN\<close>. \<open>truthy\<close> is the host's \<^verbatim>\<open>ToBoolean\<close> on numbers:
  zero and \<^verbatim>\<open>NaN\<close> are false, every other number is true.
\<close>

datatype number = Num real | NaN | Infinity | MinusInfinity

fun truthy :: "number \<Rightarrow> bool" where
  "truthy (Num x) = (x \<noteq> 0)"
| "truthy NaN = False"
| "truthy Infinity = True"
| "truthy MinusInfinity = True"

fun positive :: "number \<Rightarrow> bool" where
  "positive (Num x) = (0 < x)"
| "positive NaN = False"
| "positive Infinity = True"
| "positive MinusInfinity = False"

datatype val =
    VUndefined
  | VNum int
  | VStr string
  | VResolved val
  | VTimeoutError number
  | VCancelledError
  | VAbortError

text \<open>
  Modelled from the spec: \<^verbatim>\<open>withResolved\<close> of \<^verbatim>\<open>./resolve.js\<close>, which tags a fulfilled
  value (line 182 reads the value back as the second component of the tag).
\<close>

definition withResolved :: "val \<Rightarrow> val" where
  "withResolved result = VResolved result"

text \<open>
  Modelled from the spec: \<^verbatim>\<open>isPromiseResolveResult\<close> of \<^verbatim>\<open>./resolve.js\<close>, which
  recognises the tag; it is called on \<^verbatim>\<open>abortReason()\<close>, which is \<^verbatim>\<open>undefined\<close> (here
  \<open>None\<close>) before the abort.
\<close>

fun isPromiseResolveResult :: "val option \<Rightarrow> bool" where
  "isPromiseResolveResult (Some (VResolved v)) = True"
| "isPromiseResolveResult r = False"

datatype settlement = Pending | Fulfilled val | Rejected val

text \<open>
  A listener on the task's own signal is one of the closures the source passes to
  \<^verbatim>\<open>onAborted\<close>: the promise's raw \<^verbatim>\<open>rej\<close> (line 162), a listener of the work function,
  or the wrapper that \<^verbatim>\<open>onResolved\<close> builds around a listener of the work function.
  Listeners of the work function are observers: calling one is recorded in the trace.
\<close>

datatype listener = RejL | UserL nat | ResolvedL nat

text \<open>
  The closures pushed on \<^verbatim>\<open>cleanupFns\<close>: detach the \<^verbatim>\<open>wrapped\<close> closure of one
  \<^verbatim>\<open>onAborted\<close> call (identified by its registration number and the listener it wraps),
  detach the listener on the external signal, clear the timer.
\<close>

datatype cleanup = RemoveListener nat listener | RemoveBridge | ClearTimeout

datatype timer = NoTimer | Scheduled number | Cleared | Fired

datatype hres = Return val | Throw val

text \<open>
  A handler given to \<^verbatim>\<open>then\<close>: a function of the work's caller, or the wrapped
  \<^verbatim>\<open>reject\<close> closure of a task (line 207 passes it to \<^verbatim>\<open>catch\<close>).
\<close>

datatype handler = HFun "val \<Rightarrow> hres" | HReject nat

text \<open>
  A promise of the store: the instance of the class with the given number, or the host's
  own promise with the given number. A reaction names the promise that \<^verbatim>\<open>then\<close> derived
  and the two handlers.
\<close>

datatype pref = Task nat | Native nat

type_synonym reaction = "pref \<times> handler option \<times> handler option"

datatype outcome = OkV val | ErrV val

type_synonym job = "reaction \<times> outcome"

text \<open>The trace of calls, kept beside the state so that call order can be stated.\<close>

datatype event =
    EvExecutor nat
  | EvIsAborted nat bool
  | EvAbortReason nat "val option"
  | EvIsResolved nat bool
  | EvResolved nat "val option"
  | EvListener nat nat val
  | EvOnResolved nat nat val
  | EvRes nat val
  | EvRej nat val
  | EvAbort nat val
  | EvCleanup nat cleanup

text \<open>
  One \<^verbatim>\<open>AbortablePromise\<close> instance: the host promise's slots (\<open>settlement\<close>,
  \<open>reactions\<close>, and \<open>handled\<close>, which the host sets when \<^verbatim>\<open>then\<close> is called on the
  promise and reads to report a rejection that nobody handles), the variables closed over by its constructor (\<open>sig_reason\<close> is
  \<^verbatim>\<open>signal.reason\<close> with \<open>None\<close> for a signal that has not aborted, \<open>listeners\<close> the
  signal's listener list, \<open>cleanupFns\<close>, the timer), the external signal passed as
  \<^verbatim>\<open>abortSignal\<close> (\<open>None\<close>: not passed; \<open>Some None\<close>: passed, not aborted;
  \<open>Some (Some r)\<close>: aborted with \<open>r\<close>) with \<open>bridge\<close> telling whether the constructor's
  listener is attached to it, and the two instance properties \<^verbatim>\<open>abort\<close> and \<^verbatim>\<open>reject\<close>,
  each holding the number of the task whose constructor created the closure.
  \<open>cfg_rejectOnAbort\<close> records the constructor's local \<^verbatim>\<open>rejectOnAbort\<close>.
\<close>

record task =
  settlement :: settlement
  reactions :: "reaction list"
  handled :: bool
  sig_reason :: "val option"
  listeners :: "(nat \<times> listener) list"
  next_lid :: nat
  cleanupFns :: "cleanup list"
  timer :: timer
  ext_signal :: "val option option"
  bridge :: bool
  cfg_rejectOnAbort :: bool
  abort_ref :: nat
  reject_ref :: nat

text \<open>One promise of the host that is not an instance of the class: the three slots.\<close>

record native =
  n_settlement :: settlement
  n_reactions :: "reaction list"
  n_handled :: bool

record store =
  tasks :: "nat \<Rightarrow> task"
  next_id :: nat
  natives :: "nat \<Rightarrow> native"
  next_native :: nat
  microtasks :: "job list"
  log :: "event list"

definition blank_task :: task where
  "blank_task = \<lparr> settlement = Pending, reactions = [], handled = False, sig_reason = None,
     listeners = [], next_lid = 0, cleanupFns = [], timer = NoTimer, ext_signal = None,
     bridge = False, cfg_rejectOnAbort = False, abort_ref = 0, reject_ref = 0 \<rparr>"

definition blank_native :: native where
  "blank_native = \<lparr> n_settlement = Pending, n_reactions = [], n_handled = False \<rparr>"

definition empty_store :: store where
  "empty_store = \<lparr> tasks = (\<lambda>_. blank_task), next_id = 0, natives = (\<lambda>_. blank_native),
     next_native = 0, microtasks = [], log = [] \<rparr>"

definition upd_task :: "nat \<Rightarrow> (task \<Rightarrow> task) \<Rightarrow> store \<Rightarrow> store" where
  "upd_task p f s = s\<lparr>tasks := (tasks s)(p := f (tasks s p))\<rparr>"

definition upd_native :: "nat \<Rightarrow> (native \<Rightarrow> native) \<Rightarrow> store \<Rightarrow> store" where
  "upd_native n f s = s\<lparr>natives := (natives s)(n := f (natives s n))\<rparr>"

definition add_log :: "event \<Rightarrow> store \<Rightarrow> store" where
  "add_log e s = s\<lparr>log := log s @ [e]\<rparr>"

text \<open>
  A rejection that the host reports as unhandled: a rejected promise on which \<^verbatim>\<open>then\<close>
  has not been called.
\<close>

fun is_rejected :: "settlement \<Rightarrow> bool" where
  "is_rejected (Rejected r) = True"
| "is_rejected st = False"

fun unhandled :: "store \<Rightarrow> pref \<Rightarrow> bool" where
  "unhandled s (Task p) = (is_rejected (settlement (tasks s p)) \<and> \<not> handled (tasks s p))"
| "unhandled s (Native n) =
     (is_rejected (n_settlement (natives s n)) \<and> \<not> n_handled (natives s n))"

section \<open>The host promise's resolving functions\<close>

text \<open>
  \<^verbatim>\<open>res\<close> and \<^verbatim>\<open>rej\<close> of line 82: the first call on a pending promise settles it and
  queues one job per registered reaction; any later call does nothing.
\<close>

definition settle :: "nat \<Rightarrow> settlement \<Rightarrow> outcome \<Rightarrow> store \<Rightarrow> store" where
  "settle p st out s =
     (case settlement (tasks s p) of
        Pending \<Rightarrow>
          (upd_task p (\<lambda>t. t\<lparr>settlement := st, reactions := []\<rparr>) s)
            \<lparr>microtasks := microtasks s @ map (\<lambda>r. (r, out)) (reactions (tasks s p))\<rparr>
      | _ \<Rightarrow> s)"

definition res :: "nat \<Rightarrow> val \<Rightarrow> store \<Rightarrow> store" where
  "res p v s = settle p (Fulfilled v) (OkV v) (add_log (EvRes p v) s)"

definition rej :: "nat \<Rightarrow> val \<Rightarrow> store \<Rightarrow> store" where
  "rej p r s = settle p (Rejected r) (ErrV r) (add_log (EvRej p r) s)"

text \<open>
  The same for a promise of the host: its two resolving functions, its creation in a
  given state (pending, or already settled as \<^verbatim>\<open>Promise.reject(r)\<close> and the promise of
  an \<^verbatim>\<open>async\<close> function that has already thrown are), and the host's \<^verbatim>\<open>then\<close> on
  it, which derives a promise of the host, registers the reaction or queues its job, and
  marks the receiver as handled.
\<close>

definition native_settle :: "nat \<Rightarrow> settlement \<Rightarrow> outcome \<Rightarrow> store \<Rightarrow> store" where
  "native_settle n st out s =
     (case n_settlement (natives s n) of
        Pending \<Rightarrow>
          (upd_native n (\<lambda>x. x\<lparr>n_settlement := st, n_reactions := []\<rparr>) s)
            \<lparr>microtasks := microtasks s @ map (\<lambda>r. (r, out)) (n_reactions (natives s n))\<rparr>
      | _ \<Rightarrow> s)"

definition native_res :: "nat \<Rightarrow> val \<Rightarrow> store \<Rightarrow> store" where
  "native_res n v s = native_settle n (Fulfilled v) (OkV v) s"

definition native_rej :: "nat \<Rightarrow> val \<Rightarrow> store \<Rightarrow> store" where
  "native_rej n r s = native_settle n (Rejected r) (ErrV r) s"

definition new_native :: "settlement \<Rightarrow> store \<Rightarrow> nat \<times> store" where
  "new_native st s =
     (next_native s,
      s\<lparr>natives := (natives s)(next_native s := blank_native\<lparr>n_settlement := st\<rparr>),
        next_native := Suc (next_native s)\<rparr>)"

definition native_then ::
    "nat \<Rightarrow> handler option \<Rightarrow> handler option \<Rightarrow> store \<Rightarrow> nat \<times> store" where
  "native_then n onFulfilled onRejected s =
     (let (c, s1) = new_native Pending s;
          r = (Native c, onFulfilled, onRejected)
      in (c, upd_native n (\<lambda>x. x\<lparr>n_handled := True\<rparr>)
               (case n_settlement (natives s1 n) of
                  Pending \<Rightarrow> upd_native n (\<lambda>x. x\<lparr>n_reactions := n_reactions x @ [r]\<rparr>) s1
                | Fulfilled v \<Rightarrow> s1\<lparr>microtasks := microtasks s1 @ [(r, OkV v)]\<rparr>
                | Rejected e \<Rightarrow> s1\<lparr>microtasks := microtasks s1 @ [(r, ErrV e)]\<rparr>)))"

section \<open>The constructor's closures\<close>

text \<open>Lines 116-118: \<^verbatim>\<open>wrapped\<close> calls the listener with \<^verbatim>\<open>abortReason()\<close>.\<close>

fun notify :: "nat \<Rightarrow> val \<Rightarrow> listener \<Rightarrow> store \<Rightarrow> store" where
  "notify p r RejL s = rej p r s"
| "notify p r (UserL n) s = add_log (EvListener p n r) s"
| "notify p r (ResolvedL n) s =
     (case r of VResolved v \<Rightarrow> add_log (EvOnResolved p n v) s | _ \<Rightarrow> s)"

text \<open>
  \<^verbatim>\<open>controller.abort(reason)\<close> of the host: the signal takes the reason (the default
  error when the reason is \<^verbatim>\<open>undefined\<close>) and the listeners attached at that moment
  are called in the order of their registration.
\<close>

definition dispatch :: "nat \<Rightarrow> val \<Rightarrow> (nat \<times> listener) list \<Rightarrow> store \<Rightarrow> store" where
  "dispatch p r ls s = fold (\<lambda>(k, l). notify p r l) ls s"

definition abort_value :: "val \<Rightarrow> val" where
  "abort_value reason = (if reason = VUndefined then VAbortError else reason)"

definition controller_abort :: "nat \<Rightarrow> val \<Rightarrow> store \<Rightarrow> store" where
  "controller_abort p reason s =
     (let r = abort_value reason;
          s1 = upd_task p (\<lambda>t. t\<lparr>sig_reason := Some r\<rparr>) s
      in dispatch p r (listeners (tasks s1 p)) s1)"

text \<open>Lines 111-113.\<close>

definition abort :: "nat \<Rightarrow> val \<Rightarrow> store \<Rightarrow> store" where
  "abort p reason s =
     (let s1 = add_log (EvAbort p reason) s
      in if sig_reason (tasks s1 p) = None then controller_abort p reason s1 else s1)"

definition abortReason :: "nat \<Rightarrow> store \<Rightarrow> val option" where
  "abortReason p s = sig_reason (tasks s p)"

definition isAborted :: "nat \<Rightarrow> store \<Rightarrow> bool" where
  "isAborted p s = (sig_reason (tasks s p) \<noteq> None)"

definition isResolved :: "nat \<Rightarrow> store \<Rightarrow> bool" where
  "isResolved p s = isPromiseResolveResult (abortReason p s)"

definition resolved :: "nat \<Rightarrow> store \<Rightarrow> val option" where
  "resolved p s = (case abortReason p s of Some (VResolved v) \<Rightarrow> Some v | _ \<Rightarrow> None)"

text \<open>
  Lines 115-126. The host's \<^verbatim>\<open>addEventListener\<close> only appends to the listener list: a
  signal that has already aborted dispatches nothing more.
\<close>

definition onAborted :: "nat \<Rightarrow> listener \<Rightarrow> store \<Rightarrow> cleanup \<times> store" where
  "onAborted p l s =
     (let k = next_lid (tasks s p); c = RemoveListener k l
      in (c, upd_task p (\<lambda>t. t\<lparr>listeners := listeners t @ [(k, l)],
                                next_lid := Suc k,
                                cleanupFns := cleanupFns t @ [c]\<rparr>) s))"

fun run_cleanup :: "nat \<Rightarrow> cleanup \<Rightarrow> store \<Rightarrow> store" where
  "run_cleanup p (RemoveListener k l) s =
     upd_task p (\<lambda>t. t\<lparr>listeners := filter (\<lambda>e. e \<noteq> (k, l)) (listeners t)\<rparr>)
       (add_log (EvCleanup p (RemoveListener k l)) s)"
| "run_cleanup p RemoveBridge s =
     upd_task p (\<lambda>t. t\<lparr>bridge := False\<rparr>) (add_log (EvCleanup p RemoveBridge) s)"
| "run_cleanup p ClearTimeout s =
     upd_task p (\<lambda>t. t\<lparr>timer := (case timer t of Scheduled d \<Rightarrow> Cleared | x \<Rightarrow> x)\<rparr>)
       (add_log (EvCleanup p ClearTimeout) s)"

text \<open>Lines 95-103: call \<^verbatim>\<open>fn\<close>, then every function of \<^verbatim>\<open>cleanupFns\<close> in order.\<close>

definition run_cleanups :: "nat \<Rightarrow> cleanup list \<Rightarrow> store \<Rightarrow> store" where
  "run_cleanups p cs s = fold (run_cleanup p) cs s"

definition withCleanup :: "nat \<Rightarrow> ('a \<Rightarrow> store \<Rightarrow> store) \<Rightarrow> 'a \<Rightarrow> store \<Rightarrow> store" where
  "withCleanup p fn a s =
     (let s1 = fn a s in run_cleanups p (cleanupFns (tasks s1 p)) s1)"

text \<open>Lines 129-136.\<close>

definition resolve :: "nat \<Rightarrow> val \<Rightarrow> store \<Rightarrow> store" where
  "resolve p = withCleanup p (\<lambda>result s. abort p (withResolved result) (res p result s))"

definition reject :: "nat \<Rightarrow> val \<Rightarrow> store \<Rightarrow> store" where
  "reject p = withCleanup p (\<lambda>reason s. abort p reason (rej p reason s))"

section \<open>The constructor\<close>

text \<open>
  \<^verbatim>\<open>PromiseOptions\<close>; a field is \<open>None\<close> when the option is absent, and an absent
  options object is the record of three absent fields (line 139). \<open>abortSignal\<close> gives
  the state of the passed signal at construction.
\<close>

record options =
  abortSignal :: "val option option"
  rejectOnAbort :: "bool option"
  timeout :: "number option"

definition no_options :: options where
  "no_options = \<lparr> abortSignal = None, rejectOnAbort = None, timeout = None \<rparr>"

text \<open>
  The work function is the caller's code. It is given as the sequence of calls it makes,
  while it runs inside the constructor, on the two callbacks and the context it receives,
  ended by a \<^verbatim>\<open>throw\<close> or by the value it returns: \<^verbatim>\<open>undefined\<close>, an instance of
  the class or a promise of the host that exists when the constructor is called, a
  promise of the host that the work function itself has made, given by the state it is in
  when it is returned (the promise of an \<^verbatim>\<open>async\<close> work function, or
  \<^verbatim>\<open>new Promise(...)\<close>), or an instance of the class that the work function itself
  has constructed. A promise that the work function makes is added to the store when the
  work function returns: until then nothing but the work function can reach it. A value
  that is not a promise is treated as \<^verbatim>\<open>undefined\<close> is: line 206 only asks whether
  the result is a promise.
\<close>

datatype xop =
    XResolve val
  | XReject val
  | XOnAborted nat
  | XOnResolved nat
  | XIsAborted
  | XAbortReason
  | XIsResolved
  | XResolvedValue
  | XThrowIfAborted
  | XThrow val

text \<open>
  The first argument of the constructor, \<^verbatim>\<open>executorOrOptions\<close>, by what line 86 can
  tell of it: a function, an options object, or \<^verbatim>\<open>undefined\<close>. The second argument,
  \<^verbatim>\<open>maybeOptions\<close>, is an options object or \<^verbatim>\<open>undefined\<close> (\<open>None\<close>). The two
  types depend on each other: a work function can end with
  \<^verbatim>\<open>return new AbortablePromise(...)\<close>, which \<open>RetNew\<close> gives by the arguments of
  that call.
\<close>

datatype xret =
    RetUndefined
  | RetTask nat
  | RetNative nat
  | RetFresh settlement
  | RetNew argument "options option"
and argument = Function "xop list \<times> xret" | Object options | Undefined

type_synonym executor = "xop list \<times> xret"

text \<open>
  Lines 83-91: the locals \<^verbatim>\<open>executor\<close> and \<^verbatim>\<open>options\<close>. When the first argument is
  not a function it is taken as the options and the second argument is not read.
\<close>

definition executor_arg :: "argument \<Rightarrow> executor option" where
  "executor_arg executorOrOptions =
     (case executorOrOptions of Function f \<Rightarrow> Some f | Object opts \<Rightarrow> None | Undefined \<Rightarrow> None)"

definition options_arg :: "argument \<Rightarrow> options option \<Rightarrow> options option" where
  "options_arg executorOrOptions maybeOptions =
     (case executorOrOptions of
        Function f \<Rightarrow> maybeOptions
      | Object opts \<Rightarrow> Some opts
      | Undefined \<Rightarrow> None)"

text \<open>Line 139: \<^verbatim>\<open>options ||= {}\<close>.\<close>

definition options_or_empty :: "argument \<Rightarrow> options option \<Rightarrow> options" where
  "options_or_empty executorOrOptions maybeOptions =
     (case options_arg executorOrOptions maybeOptions of
        None \<Rightarrow> no_options
      | Some opts \<Rightarrow> opts)"

text \<open>One call of the work function; \<open>Some e\<close> in the result is a thrown \<open>e\<close>.\<close>

fun run_op :: "nat \<Rightarrow> xop \<Rightarrow> store \<Rightarrow> val option \<times> store" where
  "run_op p (XResolve v) s = (None, resolve p v s)"
| "run_op p (XReject r) s = (None, reject p r s)"
| "run_op p (XOnAborted n) s = (None, snd (onAborted p (UserL n) s))"
| "run_op p (XOnResolved n) s = (None, snd (onAborted p (ResolvedL n) s))"
| "run_op p XIsAborted s = (None, add_log (EvIsAborted p (isAborted p s)) s)"
| "run_op p XAbortReason s = (None, add_log (EvAbortReason p (abortReason p s)) s)"
| "run_op p XIsResolved s = (None, add_log (EvIsResolved p (isResolved p s)) s)"
| "run_op p XResolvedValue s = (None, add_log (EvResolved p (resolved p s)) s)"
| "run_op p XThrowIfAborted s =
     (case abortReason p s of Some r \<Rightarrow> (Some r, s) | None \<Rightarrow> (None, s))"
| "run_op p (XThrow e) s = (Some e, s)"

fun run_ops :: "nat \<Rightarrow> xop list \<Rightarrow> store \<Rightarrow> val option \<times> store" where
  "run_ops p [] s = (None, s)"
| "run_ops p (x # xs) s =
     (case run_op p x s of
        (Some e, s1) \<Rightarrow> (Some e, s1)
      | (None, s1) \<Rightarrow> run_ops p xs s1)"

text \<open>
  Lines 141-158. The first component tells whether the executor of line 82 returned at
  line 145.
\<close>

definition process_abortSignal :: "nat \<Rightarrow> options \<Rightarrow> bool \<Rightarrow> store \<Rightarrow> bool \<times> store" where
  "process_abortSignal p opts roa s =
     (case abortSignal opts of
        None \<Rightarrow> (False, s)
      | Some (Some reason) \<Rightarrow>
          (if roa then (True, reject p reason s) else (False, abort p reason s))
      | Some None \<Rightarrow>
          (False, upd_task p (\<lambda>t. t\<lparr>bridge := True,
                                     cleanupFns := cleanupFns t @ [RemoveBridge]\<rparr>) s))"

text \<open>Line 162.\<close>

definition process_rejectOnAbort :: "nat \<Rightarrow> bool \<Rightarrow> store \<Rightarrow> store" where
  "process_rejectOnAbort p roa s = (if roa then snd (onAborted p RejL s) else s)"

text \<open>
  Lines 166-175; \<^verbatim>\<open>if (timeout)\<close> holds for a number that is \<open>truthy\<close>. The delay
  given to \<^verbatim>\<open>setTimeout\<close> plays no part: the expiry of a scheduled timer is an event of
  the environment.
\<close>

definition process_timeout :: "nat \<Rightarrow> options \<Rightarrow> store \<Rightarrow> store" where
  "process_timeout p opts s =
     (case timeout opts of
        None \<Rightarrow> s
      | Some t \<Rightarrow>
          (if truthy t
           then upd_task p (\<lambda>x. x\<lparr>timer := Scheduled t,
                                   cleanupFns := cleanupFns x @ [ClearTimeout]\<rparr>) s
           else s))"

text \<open>
  Lines 184-213 without line 207: the call of the work function and the \<^verbatim>\<open>catch\<close>
  clause. The result is what the work function returned.
\<close>

definition call_executor :: "nat \<Rightarrow> executor option \<Rightarrow> store \<Rightarrow> xret \<times> store" where
  "call_executor p ex s =
     (case ex of
        None \<Rightarrow> (RetUndefined, s)
      | Some (ops, ret) \<Rightarrow>
          (case run_ops p ops (add_log (EvExecutor p) s) of
             (Some e, s1) \<Rightarrow> (RetUndefined, reject p e s1)
           | (None, s1) \<Rightarrow> (ret, s1)))"

text \<open>The new instance, with the variables of lines 94 and 109 in their initial state.\<close>

definition alloc :: "bool \<Rightarrow> options \<Rightarrow> store \<Rightarrow> store" where
  "alloc roa opts s =
     s\<lparr>tasks := (tasks s)(next_id s :=
           blank_task\<lparr>ext_signal := abortSignal opts, cfg_rejectOnAbort := roa\<rparr>),
       next_id := Suc (next_id s)\<rparr>"

text \<open>Line 140: the default of \<^verbatim>\<open>rejectOnAbort\<close> is \<^verbatim>\<open>true\<close>.\<close>

definition roa_of :: "options \<Rightarrow> bool" where
  "roa_of opts = (case rejectOnAbort opts of None \<Rightarrow> True | Some b \<Rightarrow> b)"

text \<open>
  Lines 93-213 of the executor handed to \<^verbatim>\<open>super\<close>, as a function of the locals
  \<^verbatim>\<open>executor\<close> and \<^verbatim>\<open>options\<close> that lines 83-91 and 139 have computed from the
  arguments, and without line 207, which needs \<^verbatim>\<open>catch\<close>. Lines 83-91, 139 and 207
  are in \<open>construct\<close> below.
\<close>

definition executor_body ::
    "executor option \<Rightarrow> options \<Rightarrow> store \<Rightarrow> nat \<times> xret \<times> store" where
  "executor_body ex opts s =
     (let p = next_id s;
          roa = roa_of opts;
          (returned, s1) = process_abortSignal p opts roa (alloc roa opts s)
      in if returned then (p, RetUndefined, s1)
         else
           (let s2 = process_rejectOnAbort p roa s1;
                s3 = process_timeout p opts s2;
                (ret, s4) = call_executor p ex s3
            in (p, ret, s4)))"

text \<open>
  Two names for the statements below: the options with which line 145 returns before the
  work function is called, and the store in which the work function is called otherwise
  (after lines 93-176).
\<close>

definition short_circuit :: "options \<Rightarrow> bool" where
  "short_circuit opts = ((\<exists>r. abortSignal opts = Some (Some r)) \<and> roa_of opts)"

definition pre_executor :: "options \<Rightarrow> store \<Rightarrow> store" where
  "pre_executor opts s =
     process_timeout (next_id s) opts
       (process_rejectOnAbort (next_id s) (roa_of opts)
          (snd (process_abortSignal (next_id s) opts (roa_of opts)
             (alloc (roa_of opts) opts s))))"

text \<open>Lines 216-217.\<close>

definition assign_props :: "nat \<Rightarrow> store \<Rightarrow> store" where
  "assign_props p s = upd_task p (\<lambda>t. t\<lparr>abort_ref := p, reject_ref := p\<rparr>) s"

section \<open>Chaining\<close>

text \<open>
  The host's \<^verbatim>\<open>Promise.prototype.then\<close> on an instance of the class builds the derived
  promise with the constructor of the receiver's class, that is with
  \<^verbatim>\<open>new AbortablePromise(executor)\<close> for an executor of the host that keeps the two
  callbacks it is given and returns \<^verbatim>\<open>undefined\<close>; the derived promise is later settled
  through these callbacks, which are the wrapped \<^verbatim>\<open>resolve\<close> and \<^verbatim>\<open>reject\<close> of lines
  129-136. It then registers the reaction, or queues its job when the receiver is settled,
  and marks the receiver as handled.
\<close>

definition new_capability :: "store \<Rightarrow> nat \<times> store" where
  "new_capability s =
     (let (c, ret, s1) = executor_body (executor_arg (Function ([], RetUndefined)))
                           (options_or_empty (Function ([], RetUndefined)) None) s
      in (c, assign_props c s1))"

definition super_then ::
    "nat \<Rightarrow> handler option \<Rightarrow> handler option \<Rightarrow> store \<Rightarrow> nat \<times> store" where
  "super_then p onFulfilled onRejected s =
     (let (c, s1) = new_capability s;
          r = (Task c, onFulfilled, onRejected)
      in (c, upd_task p (\<lambda>t. t\<lparr>handled := True\<rparr>)
               (case settlement (tasks s1 p) of
                  Pending \<Rightarrow> upd_task p (\<lambda>t. t\<lparr>reactions := reactions t @ [r]\<rparr>) s1
                | Fulfilled v \<Rightarrow> s1\<lparr>microtasks := microtasks s1 @ [(r, OkV v)]\<rparr>
                | Rejected e \<Rightarrow> s1\<lparr>microtasks := microtasks s1 @ [(r, ErrV e)]\<rparr>)))"

text \<open>Lines 15-22.\<close>

definition reassignProps :: "nat \<Rightarrow> nat \<Rightarrow> store \<Rightarrow> store" where
  "reassignProps childPromise parentPromise s =
     upd_task childPromise
       (\<lambda>t. t\<lparr>reject_ref := reject_ref (tasks s parentPromise),
               abort_ref := abort_ref (tasks s parentPromise)\<rparr>) s"

text \<open>Lines 267-287 and 240-244.\<close>

definition then_m ::
    "nat \<Rightarrow> handler option \<Rightarrow> handler option \<Rightarrow> store \<Rightarrow> nat \<times> store" where
  "then_m p onFulfilled onRejected s =
     (let (c, s1) = super_then p onFulfilled onRejected s in (c, reassignProps c p s1))"

definition catch_m :: "nat \<Rightarrow> handler option \<Rightarrow> store \<Rightarrow> nat \<times> store" where
  "catch_m p onRejected s = then_m p None onRejected s"

text \<open>
  The host's \<^verbatim>\<open>Promise.prototype.finally\<close> calls the receiver's own \<^verbatim>\<open>then\<close>, which is
  the overridden one, with two handlers built around \<^verbatim>\<open>onFinally\<close>; a missing
  \<^verbatim>\<open>onFinally\<close> is passed on as it is. \<^verbatim>\<open>onFinally\<close> is given by what its call does
  (returns or throws); the intermediate promise that the host awaits between the call and
  the settlement of the derived promise is left out.
\<close>

definition super_finally :: "nat \<Rightarrow> hres option \<Rightarrow> store \<Rightarrow> nat \<times> store" where
  "super_finally p onFinally s =
     (case onFinally of
        None \<Rightarrow> then_m p None None s
      | Some f \<Rightarrow>
          then_m p
            (Some (HFun (\<lambda>v. case f of Return u \<Rightarrow> Return v | Throw e \<Rightarrow> Throw e)))
            (Some (HFun (\<lambda>r. case f of Return u \<Rightarrow> Throw r | Throw e \<Rightarrow> Throw e))) s)"

text \<open>Lines 249-252.\<close>

definition finally_m :: "nat \<Rightarrow> hres option \<Rightarrow> store \<Rightarrow> nat \<times> store" where
  "finally_m p onFinally s =
     (let (c, s1) = super_finally p onFinally s in (c, reassignProps c p s1))"

text \<open>
  The constructor, lines 76-218: the locals of lines 83-91 and 139 from the two arguments,
  the rest of the executor, line 207 and lines 216-217. At line 207 \<^verbatim>\<open>result.catch\<close>
  is the method of lines 240-244 when the result is an instance of the class and the
  host's \<^verbatim>\<open>catch\<close>, which calls the host's \<^verbatim>\<open>then\<close>, when it is a promise of the
  host. The constructor has no path on which a value thrown by the work function leaves
  it: the \<^verbatim>\<open>catch\<close> clause of lines 209-213 takes every such value.
\<close>

function construct :: "argument \<Rightarrow> options option \<Rightarrow> store \<Rightarrow> nat \<times> store" where
  "construct executorOrOptions maybeOptions s =
     (let executor = executor_arg executorOrOptions;
          options = options_or_empty executorOrOptions maybeOptions;
          (p, ret, s1) = executor_body executor options s;
          s2 = (case ret of
                  RetUndefined \<Rightarrow> s1
                | RetTask q \<Rightarrow> snd (catch_m q (Some (HReject p)) s1)
                | RetNative n \<Rightarrow> snd (native_then n None (Some (HReject p)) s1)
                | RetFresh st \<Rightarrow>
                    (let (n, s') = new_native st s1
                     in snd (native_then n None (Some (HReject p)) s'))
                | RetNew a m \<Rightarrow>
                    (let (q, s') = construct a m s1
                     in snd (catch_m q (Some (HReject p)) s')))
      in (p, assign_props p s2))"
  by pat_completeness auto

termination
  apply (relation "measure (\<lambda>(a, m, s). size a)")
   apply simp
  apply (auto simp: executor_body_def call_executor_def executor_arg_def Let_def
      split: if_splits prod.splits option.splits argument.splits)
  done

declare construct.simps [simp del]

section \<open>Instance methods and the environment\<close>

text \<open>
  Calling the property \<^verbatim>\<open>abort\<close> or \<^verbatim>\<open>reject\<close> of an instance calls the closure the
  property holds.
\<close>

definition abort_m :: "nat \<Rightarrow> val \<Rightarrow> store \<Rightarrow> store" where
  "abort_m p reason s = abort (abort_ref (tasks s p)) reason s"

definition reject_m :: "nat \<Rightarrow> val \<Rightarrow> store \<Rightarrow> store" where
  "reject_m p reason s = reject (reject_ref (tasks s p)) reason s"

text \<open>Lines 233-235.\<close>

definition cancel :: "nat \<Rightarrow> store \<Rightarrow> store" where
  "cancel p s = abort_m p VCancelledError s"

text \<open>The timer's callback (lines 168-170) runs when a scheduled timer expires.\<close>

definition timer_fires :: "nat \<Rightarrow> store \<Rightarrow> store" where
  "timer_fires p s =
     (case timer (tasks s p) of
        Scheduled t \<Rightarrow> abort p (VTimeoutError t) (upd_task p (\<lambda>x. x\<lparr>timer := Fired\<rparr>) s)
      | _ \<Rightarrow> s)"

text \<open>
  The external signal aborts: it takes its reason and, when the listener of lines
  150-152 is attached, calls it.
\<close>

definition external_abort :: "nat \<Rightarrow> val \<Rightarrow> store \<Rightarrow> store" where
  "external_abort p reason s =
     (case ext_signal (tasks s p) of
        Some None \<Rightarrow>
          (let r = abort_value reason;
               s1 = upd_task p (\<lambda>t. t\<lparr>ext_signal := Some (Some r)\<rparr>) s
           in if bridge (tasks s1 p) then abort p r s1 else s1)
      | _ \<Rightarrow> s)"

text \<open>
  One job of the host's microtask queue: call the handler that matches the outcome and
  settle the derived promise with what it returns or throws; without a handler the outcome
  is passed through. A derived instance of the class is settled through the wrapped
  \<^verbatim>\<open>resolve\<close> and \<^verbatim>\<open>reject\<close> its constructor made, a derived promise of the host
  through the host's resolving functions.
\<close>

fun call_handler :: "handler \<Rightarrow> val \<Rightarrow> store \<Rightarrow> hres \<times> store" where
  "call_handler (HFun f) a s = (f a, s)"
| "call_handler (HReject q) a s = (Return VUndefined, reject q a s)"

fun complete :: "pref \<Rightarrow> hres \<times> store \<Rightarrow> store" where
  "complete (Task c) (Return v, s) = resolve c v s"
| "complete (Task c) (Throw e, s) = reject c e s"
| "complete (Native n) (Return v, s) = native_res n v s"
| "complete (Native n) (Throw e, s) = native_rej n e s"

fun run_job :: "job \<Rightarrow> store \<Rightarrow> store" where
  "run_job ((c, onFulfilled, onRejected), OkV v) s =
     (case onFulfilled of
        None \<Rightarrow> complete c (Return v, s)
      | Some h \<Rightarrow> complete c (call_handler h v s))"
| "run_job ((c, onFulfilled, onRejected), ErrV r) s =
     (case onRejected of
        None \<Rightarrow> complete c (Throw r, s)
      | Some h \<Rightarrow> complete c (call_handler h r s))"

definition run_microtask :: "store \<Rightarrow> store" where
  "run_microtask s =
     (case microtasks s of
        [] \<Rightarrow> s
      | j # js \<Rightarrow> run_job j (s\<lparr>microtasks := js\<rparr>))"

section \<open>Histories\<close>

text \<open>
  What can happen to a store: a task is constructed, a method of an instance is called,
  the work function of a task calls something it was given (after the constructor has
  returned, where a \<^verbatim>\<open>throw\<close> no longer reaches the constructor's \<^verbatim>\<open>catch\<close>) or
  calls a handle that \<^verbatim>\<open>onAborted\<close> returned to it, a timer expires, an external
  signal aborts, the host runs a job, a promise of the host is made, is settled by its
  maker, or has \<^verbatim>\<open>then\<close> called on it. A history is a list of such actions, performed on
  the empty store. The handle of the registration of line 162 is dropped there, so the
  work function holds handles for its own listeners only.
\<close>

datatype action =
    New argument "options option"
  | Abort nat val
  | Reject nat val
  | Cancel nat
  | Then nat "handler option" "handler option"
  | Catch nat "handler option"
  | Finally nat "hres option"
  | Ctx nat xop
  | Unsubscribe nat nat listener
  | TimerFires nat
  | ExternalAbort nat val
  | Microtask
  | NewNative settlement
  | SettleNative nat outcome
  | ThenNative nat "handler option" "handler option"

fun perform :: "action \<Rightarrow> store \<Rightarrow> store" where
  "perform (New a m) s = snd (construct a m s)"
| "perform (Abort p r) s = abort_m p r s"
| "perform (Reject p r) s = reject_m p r s"
| "perform (Cancel p) s = cancel p s"
| "perform (Then p f g) s = snd (then_m p f g s)"
| "perform (Catch p g) s = snd (catch_m p g s)"
| "perform (Finally p f) s = snd (finally_m p f s)"
| "perform (Ctx p x) s = snd (run_op p x s)"
| "perform (Unsubscribe p k l) s = run_cleanup p (RemoveListener k l) s"
| "perform (TimerFires p) s = timer_fires p s"
| "perform (ExternalAbort p r) s = external_abort p r s"
| "perform Microtask s = run_microtask s"
| "perform (NewNative st) s = snd (new_native st s)"
| "perform (SettleNative n (OkV v)) s = native_res n v s"
| "perform (SettleNative n (ErrV r)) s = native_rej n r s"
| "perform (ThenNative n f g) s = snd (native_then n f g s)"

fun allowed :: "action \<Rightarrow> bool" where
  "allowed (Unsubscribe p k l) = (l \<noteq> RejL)"
| "allowed a = True"

fun run :: "action list \<Rightarrow> store \<Rightarrow> store" where
  "run [] s = s"
| "run (a # as) s = run as (perform a s)"

definition history :: "action list \<Rightarrow> bool" where
  "history as = list_all allowed as"

text \<open>
  A chain of derivations from a task: each step lets a history pass and then applies one
  of the three chaining operations to the task derived so far.
\<close>

datatype link =
    LThen "handler option" "handler option"
  | LCatch "handler option"
  | LFinally "hres option"

fun apply_link :: "link \<Rightarrow> nat \<Rightarrow> store \<Rightarrow> nat \<times> store" where
  "apply_link (LThen f g) p s = then_m p f g s"
| "apply_link (LCatch g) p s = catch_m p g s"
| "apply_link (LFinally f) p s = finally_m p f s"

fun derive :: "(action list \<times> link) list \<Rightarrow> nat \<Rightarrow> store \<Rightarrow> nat \<times> store" where
  "derive [] p s = (p, s)"
| "derive ((bs, l) # ls) p s =
     (case apply_link l p (run bs s) of (c, s1) \<Rightarrow> derive ls c s1)"

text \<open>
  A timer only ever goes from scheduled to cleared or fired.
\<close>

definition ended_or_same :: "timer \<Rightarrow> timer \<Rightarrow> bool" where
  "ended_or_same a b = (b = a \<or> ((b = Cleared \<or> b = Fired) \<and> (\<exists>d. a = Scheduled d)))"

text \<open>
  Two states of a task that differ at most in the reactions registered on it and in its
  \<open>handled\<close> slot, which is all that \<^verbatim>\<open>then\<close> changes of its receiver.
\<close>

definition same_closures :: "task \<Rightarrow> task \<Rightarrow> bool" where
  "same_closures t t' =
     (settlement t' = settlement t \<and> sig_reason t' = sig_reason t \<and>
      listeners t' = listeners t \<and> cleanupFns t' = cleanupFns t \<and> timer t' = timer t \<and>
      ext_signal t' = ext_signal t \<and> bridge t' = bridge t \<and>
      cfg_rejectOnAbort t' = cfg_rejectOnAbort t \<and> abort_ref t' = abort_ref t \<and>
      reject_ref t' = reject_ref t)"

text \<open>
  The facts that every history keeps. A signal that has not aborted belongs to a pending
  task; while it has not aborted, the listener of line 162 is attached if and only if
  \<^verbatim>\<open>rejectOnAbort\<close> holds, and it is never attached otherwise; while neither the
  task's signal nor the external signal has aborted, the listener on the external signal
  is attached; a task built with \<^verbatim>\<open>rejectOnAbort: false\<close> holds its own \<^verbatim>\<open>abort\<close>.
\<close>

definition task_inv :: "task \<Rightarrow> bool" where
  "task_inv t =
     ((sig_reason t = None \<longrightarrow> settlement t = Pending) \<and>
      (sig_reason t = None \<and> cfg_rejectOnAbort t \<longrightarrow> RejL \<in> snd ` set (listeners t)) \<and>
      (\<not> cfg_rejectOnAbort t \<longrightarrow> RejL \<notin> snd ` set (listeners t)) \<and>
      (sig_reason t = None \<and> ext_signal t = Some None \<longrightarrow> bridge t))"

definition store_inv :: "store \<Rightarrow> bool" where
  "store_inv s =
     ((\<forall>p. task_inv (tasks s p)) \<and>
      (\<forall>p. p < next_id s \<and> \<not> cfg_rejectOnAbort (tasks s p) \<longrightarrow> abort_ref (tasks s p) = p))"

text \<open>
  The part of the store that belongs to the host's own promises; no closure of the
  constructor touches it.
\<close>

definition host_part :: "store \<Rightarrow> (nat \<Rightarrow> native) \<times> nat" where
  "host_part s = (natives s, next_native s)"

section \<open>Traces\<close>

text \<open>What one listener adds to the trace when the signal calls it with \<open>r\<close>.\<close>

fun notify_events :: "nat \<Rightarrow> val \<Rightarrow> listener \<Rightarrow> event list" where
  "notify_events p r RejL = [EvRej p r]"
| "notify_events p r (UserL n) = [EvListener p n r]"
| "notify_events p r (ResolvedL n) =
     (case r of VResolved v \<Rightarrow> [EvOnResolved p n v] | _ \<Rightarrow> [])"

definition dispatch_events :: "nat \<Rightarrow> val \<Rightarrow> (nat \<times> listener) list \<Rightarrow> event list" where
  "dispatch_events p r ls = concat (map (\<lambda>(k, l). notify_events p r l) ls)"

section \<open>Basic facts about the closures\<close>

lemma executor_arg_simps [simp]:
  "executor_arg (Function f) = Some f"
  "executor_arg (Object opts) = None"
  "executor_arg Undefined = None"
  by (simp_all add: executor_arg_def)

lemma options_or_empty_simps [simp]:
  "options_or_empty (Function f) (Some opts) = opts"
  "options_or_empty (Function f) None = no_options"
  "options_or_empty (Object opts) m = opts"
  "options_or_empty Undefined m = no_options"
  by (simp_all add: options_or_empty_def options_arg_def)

lemma upd_task_simps [simp]:
  "tasks (upd_task p f s) q = (if q = p then f (tasks s p) else tasks s q)"
  "next_id (upd_task p f s) = next_id s"
  "microtasks (upd_task p f s) = microtasks s"
  "log (upd_task p f s) = log s"
  "host_part (upd_task p f s) = host_part s"
  by (simp_all add: upd_task_def host_part_def)

lemma add_log_simps [simp]:
  "tasks (add_log e s) = tasks s"
  "next_id (add_log e s) = next_id s"
  "microtasks (add_log e s) = microtasks s"
  "log (add_log e s) = log s @ [e]"
  "host_part (add_log e s) = host_part s"
  by (simp_all add: add_log_def host_part_def)

lemma host_part_microtasks [simp]: "host_part (s\<lparr>microtasks := m\<rparr>) = host_part s"
  by (simp add: host_part_def)

lemma host_partD:
  "host_part s' = host_part s \<Longrightarrow> natives s' = natives s \<and> next_native s' = next_native s"
  by (simp add: host_part_def)

lemma upd_native_simps [simp]:
  "natives (upd_native n f s) k = (if k = n then f (natives s n) else natives s k)"
  "next_native (upd_native n f s) = next_native s"
  "tasks (upd_native n f s) = tasks s"
  "next_id (upd_native n f s) = next_id s"
  "microtasks (upd_native n f s) = microtasks s"
  "log (upd_native n f s) = log s"
  by (simp_all add: upd_native_def)

lemma native_settle_simps [simp]:
  "tasks (native_settle n st out s) = tasks s"
  "next_id (native_settle n st out s) = next_id s"
  "log (native_settle n st out s) = log s"
  "next_native (native_settle n st out s) = next_native s"
  by (simp_all add: native_settle_def split: settlement.splits)

lemma native_res_rej_simps [simp]:
  "tasks (native_res n v s) = tasks s"
  "next_id (native_res n v s) = next_id s"
  "log (native_res n v s) = log s"
  "next_native (native_res n v s) = next_native s"
  "tasks (native_rej n v s) = tasks s"
  "next_id (native_rej n v s) = next_id s"
  "log (native_rej n v s) = log s"
  "next_native (native_rej n v s) = next_native s"
  by (simp_all add: native_res_def native_rej_def)

lemma native_settle_settlement:
  "n_settlement (natives (native_settle n st out s) k) =
     (if k = n \<and> n_settlement (natives s n) = Pending then st else n_settlement (natives s k))"
  by (simp add: native_settle_def split: settlement.splits)

lemma native_res_settlement:
  "n_settlement (natives (native_res n v s) k) =
     (if k = n \<and> n_settlement (natives s n) = Pending then Fulfilled v
      else n_settlement (natives s k))"
  by (simp add: native_res_def native_settle_settlement)

lemma native_rej_settlement:
  "n_settlement (natives (native_rej n v s) k) =
     (if k = n \<and> n_settlement (natives s n) = Pending then Rejected v
      else n_settlement (natives s k))"
  by (simp add: native_rej_def native_settle_settlement)

lemma new_native_simps [simp]:
  "fst (new_native st s) = next_native s"
  "tasks (snd (new_native st s)) = tasks s"
  "next_id (snd (new_native st s)) = next_id s"
  "log (snd (new_native st s)) = log s"
  "microtasks (snd (new_native st s)) = microtasks s"
  "next_native (snd (new_native st s)) = Suc (next_native s)"
  "natives (snd (new_native st s)) k =
     (if k = next_native s then blank_native\<lparr>n_settlement := st\<rparr> else natives s k)"
  by (simp_all add: new_native_def)

lemma native_then_snd:
  "snd (native_then n f g s) =
     upd_native n (\<lambda>x. x\<lparr>n_handled := True\<rparr>)
       (case n_settlement (natives (snd (new_native Pending s)) n) of
          Pending \<Rightarrow>
            upd_native n (\<lambda>x. x\<lparr>n_reactions := n_reactions x @ [(Native (next_native s), f, g)]\<rparr>)
              (snd (new_native Pending s))
        | Fulfilled v \<Rightarrow> (snd (new_native Pending s))
            \<lparr>microtasks := microtasks s @ [((Native (next_native s), f, g), OkV v)]\<rparr>
        | Rejected e \<Rightarrow> (snd (new_native Pending s))
            \<lparr>microtasks := microtasks s @ [((Native (next_native s), f, g), ErrV e)]\<rparr>)"
  by (simp add: native_then_def case_prod_beta Let_def split: settlement.splits)

lemma native_then_simps [simp]:
  "fst (native_then n f g s) = next_native s"
  "tasks (snd (native_then n f g s)) = tasks s"
  "next_id (snd (native_then n f g s)) = next_id s"
  "log (snd (native_then n f g s)) = log s"
  "next_native (snd (native_then n f g s)) = Suc (next_native s)"
proof -
  show "fst (native_then n f g s) = next_native s"
    by (simp add: native_then_def case_prod_beta Let_def)
  show "tasks (snd (native_then n f g s)) = tasks s"
    by (simp add: native_then_snd split: settlement.splits)
  show "next_id (snd (native_then n f g s)) = next_id s"
    by (simp add: native_then_snd split: settlement.splits)
  show "log (snd (native_then n f g s)) = log s"
    by (simp add: native_then_snd split: settlement.splits)
  show "next_native (snd (native_then n f g s)) = Suc (next_native s)"
    by (simp add: native_then_snd split: settlement.splits)
qed

lemma native_then_handled:
  "n_handled (natives (snd (native_then n f g s)) n)"
  by (simp add: native_then_snd split: settlement.splits)

lemma native_then_reactions:
  "n \<noteq> next_native s \<Longrightarrow>
   n_reactions (natives (snd (native_then n f g s)) n) =
     (if n_settlement (natives s n) = Pending
      then n_reactions (natives s n) @ [(Native (next_native s), f, g)]
      else n_reactions (natives s n))"
  by (simp add: native_then_snd split: settlement.splits)

lemma native_then_microtasks:
  "n \<noteq> next_native s \<Longrightarrow>
   microtasks (snd (native_then n f g s)) =
     microtasks s @
       (case n_settlement (natives s n) of
          Pending \<Rightarrow> []
        | Fulfilled v \<Rightarrow> [((Native (next_native s), f, g), OkV v)]
        | Rejected e \<Rightarrow> [((Native (next_native s), f, g), ErrV e)])"
  by (simp add: native_then_snd split: settlement.splits)

lemma native_then_settlement:
  "n_settlement (natives (snd (native_then n f g s)) k) =
     (if k = next_native s then Pending else n_settlement (natives s k))"
  by (simp add: native_then_snd blank_native_def split: settlement.splits)

lemma settle_other [simp]: "q \<noteq> p \<Longrightarrow> tasks (settle p st out s) q = tasks s q"
  by (simp add: settle_def split: settlement.splits)

lemma settle_fields [simp]:
  "next_id (settle p st out s) = next_id s"
  "log (settle p st out s) = log s"
  "host_part (settle p st out s) = host_part s"
  "handled (tasks (settle p st out s) q) = handled (tasks s q)"
  "sig_reason (tasks (settle p st out s) q) = sig_reason (tasks s q)"
  "listeners (tasks (settle p st out s) q) = listeners (tasks s q)"
  "next_lid (tasks (settle p st out s) q) = next_lid (tasks s q)"
  "cleanupFns (tasks (settle p st out s) q) = cleanupFns (tasks s q)"
  "timer (tasks (settle p st out s) q) = timer (tasks s q)"
  "ext_signal (tasks (settle p st out s) q) = ext_signal (tasks s q)"
  "bridge (tasks (settle p st out s) q) = bridge (tasks s q)"
  "cfg_rejectOnAbort (tasks (settle p st out s) q) = cfg_rejectOnAbort (tasks s q)"
  "abort_ref (tasks (settle p st out s) q) = abort_ref (tasks s q)"
  "reject_ref (tasks (settle p st out s) q) = reject_ref (tasks s q)"
  by (simp_all add: settle_def split: settlement.splits)

lemma settle_settlement:
  "settlement (tasks (settle p st out s) q) =
     (if q = p \<and> settlement (tasks s p) = Pending then st else settlement (tasks s q))"
  by (simp add: settle_def split: settlement.splits)

lemma res_rej_other [simp]:
  "q \<noteq> p \<Longrightarrow> tasks (res p v s) q = tasks s q"
  "q \<noteq> p \<Longrightarrow> tasks (rej p v s) q = tasks s q"
  by (simp_all add: res_def rej_def)

lemma res_fields [simp]:
  "next_id (res p v s) = next_id s"
  "log (res p v s) = log s @ [EvRes p v]"
  "host_part (res p v s) = host_part s"
  "handled (tasks (res p v s) q) = handled (tasks s q)"
  "sig_reason (tasks (res p v s) q) = sig_reason (tasks s q)"
  "listeners (tasks (res p v s) q) = listeners (tasks s q)"
  "next_lid (tasks (res p v s) q) = next_lid (tasks s q)"
  "cleanupFns (tasks (res p v s) q) = cleanupFns (tasks s q)"
  "timer (tasks (res p v s) q) = timer (tasks s q)"
  "ext_signal (tasks (res p v s) q) = ext_signal (tasks s q)"
  "bridge (tasks (res p v s) q) = bridge (tasks s q)"
  "cfg_rejectOnAbort (tasks (res p v s) q) = cfg_rejectOnAbort (tasks s q)"
  "abort_ref (tasks (res p v s) q) = abort_ref (tasks s q)"
  "reject_ref (tasks (res p v s) q) = reject_ref (tasks s q)"
  by (simp_all add: res_def)

lemma rej_fields [simp]:
  "next_id (rej p v s) = next_id s"
  "log (rej p v s) = log s @ [EvRej p v]"
  "host_part (rej p v s) = host_part s"
  "handled (tasks (rej p v s) q) = handled (tasks s q)"
  "sig_reason (tasks (rej p v s) q) = sig_reason (tasks s q)"
  "listeners (tasks (rej p v s) q) = listeners (tasks s q)"
  "next_lid (tasks (rej p v s) q) = next_lid (tasks s q)"
  "cleanupFns (tasks (rej p v s) q) = cleanupFns (tasks s q)"
  "timer (tasks (rej p v s) q) = timer (tasks s q)"
  "ext_signal (tasks (rej p v s) q) = ext_signal (tasks s q)"
  "bridge (tasks (rej p v s) q) = bridge (tasks s q)"
  "cfg_rejectOnAbort (tasks (rej p v s) q) = cfg_rejectOnAbort (tasks s q)"
  "abort_ref (tasks (rej p v s) q) = abort_ref (tasks s q)"
  "reject_ref (tasks (rej p v s) q) = reject_ref (tasks s q)"
  by (simp_all add: rej_def)

lemma res_settlement [simp]:
  "settlement (tasks (res p v s) q) =
     (if q = p \<and> settlement (tasks s p) = Pending then Fulfilled v else settlement (tasks s q))"
  by (simp add: res_def settle_settlement)

lemma rej_settlement [simp]:
  "settlement (tasks (rej p v s) q) =
     (if q = p \<and> settlement (tasks s p) = Pending then Rejected v else settlement (tasks s q))"
  by (simp add: rej_def settle_settlement)

lemma notify_other [simp]: "q \<noteq> p \<Longrightarrow> tasks (notify p r l s) q = tasks s q"
  by (cases l) (simp_all split: val.splits)

lemma notify_fields [simp]:
  "next_id (notify p r l s) = next_id s"
  "log (notify p r l s) = log s @ notify_events p r l"
  "host_part (notify p r l s) = host_part s"
  "handled (tasks (notify p r l s) q) = handled (tasks s q)"
  "sig_reason (tasks (notify p r l s) q) = sig_reason (tasks s q)"
  "listeners (tasks (notify p r l s) q) = listeners (tasks s q)"
  "next_lid (tasks (notify p r l s) q) = next_lid (tasks s q)"
  "cleanupFns (tasks (notify p r l s) q) = cleanupFns (tasks s q)"
  "timer (tasks (notify p r l s) q) = timer (tasks s q)"
  "ext_signal (tasks (notify p r l s) q) = ext_signal (tasks s q)"
  "bridge (tasks (notify p r l s) q) = bridge (tasks s q)"
  "cfg_rejectOnAbort (tasks (notify p r l s) q) = cfg_rejectOnAbort (tasks s q)"
  "abort_ref (tasks (notify p r l s) q) = abort_ref (tasks s q)"
  "reject_ref (tasks (notify p r l s) q) = reject_ref (tasks s q)"
  by (cases l, simp_all split: val.splits)+

lemma notify_settlement:
  "settlement (tasks (notify p r l s) q) =
     (if q = p \<and> l = RejL \<and> settlement (tasks s p) = Pending then Rejected r
      else settlement (tasks s q))"
  by (cases l) (simp_all split: val.splits)

lemma dispatch_Nil [simp]: "dispatch p r [] s = s"
  by (simp add: dispatch_def)

lemma dispatch_Cons [simp]: "dispatch p r ((k, l) # ls) s = dispatch p r ls (notify p r l s)"
  by (simp add: dispatch_def)

lemma dispatch_inv:
  assumes "\<And>l s. P (notify p r l s) = P s"
  shows "P (dispatch p r ls s) = P s"
  using assms by (induction ls arbitrary: s) auto

lemma dispatch_other [simp]: "q \<noteq> p \<Longrightarrow> tasks (dispatch p r ls s) q = tasks s q"
  by (rule dispatch_inv) simp

lemma dispatch_log [simp]: "log (dispatch p r ls s) = log s @ dispatch_events p r ls"
  by (induction ls arbitrary: s) (auto simp: dispatch_events_def)

lemma dispatch_fields [simp]:
  "next_id (dispatch p r ls s) = next_id s"
  "host_part (dispatch p r ls s) = host_part s"
  "handled (tasks (dispatch p r ls s) q) = handled (tasks s q)"
  "sig_reason (tasks (dispatch p r ls s) q) = sig_reason (tasks s q)"
  "listeners (tasks (dispatch p r ls s) q) = listeners (tasks s q)"
  "next_lid (tasks (dispatch p r ls s) q) = next_lid (tasks s q)"
  "cleanupFns (tasks (dispatch p r ls s) q) = cleanupFns (tasks s q)"
  "timer (tasks (dispatch p r ls s) q) = timer (tasks s q)"
  "ext_signal (tasks (dispatch p r ls s) q) = ext_signal (tasks s q)"
  "bridge (tasks (dispatch p r ls s) q) = bridge (tasks s q)"
  "cfg_rejectOnAbort (tasks (dispatch p r ls s) q) = cfg_rejectOnAbort (tasks s q)"
  "abort_ref (tasks (dispatch p r ls s) q) = abort_ref (tasks s q)"
  "reject_ref (tasks (dispatch p r ls s) q) = reject_ref (tasks s q)"
  by ((rule dispatch_inv, (simp; fail))+)

lemma dispatch_settlement:
  "settlement (tasks (dispatch p r ls s) q) =
     (if q = p \<and> RejL \<in> snd ` set ls \<and> settlement (tasks s p) = Pending then Rejected r
      else settlement (tasks s q))"
  by (induction ls arbitrary: s) (auto simp: notify_settlement)

lemma controller_abort_other [simp]:
  "q \<noteq> p \<Longrightarrow> tasks (controller_abort p r s) q = tasks s q"
  by (simp add: controller_abort_def Let_def)

lemma abort_other [simp]: "q \<noteq> p \<Longrightarrow> tasks (abort p r s) q = tasks s q"
  by (simp add: abort_def Let_def)

lemma abort_fields [simp]:
  "next_id (abort p r s) = next_id s"
  "host_part (abort p r s) = host_part s"
  "handled (tasks (abort p r s) q) = handled (tasks s q)"
  "listeners (tasks (abort p r s) q) = listeners (tasks s q)"
  "next_lid (tasks (abort p r s) q) = next_lid (tasks s q)"
  "cleanupFns (tasks (abort p r s) q) = cleanupFns (tasks s q)"
  "timer (tasks (abort p r s) q) = timer (tasks s q)"
  "ext_signal (tasks (abort p r s) q) = ext_signal (tasks s q)"
  "bridge (tasks (abort p r s) q) = bridge (tasks s q)"
  "cfg_rejectOnAbort (tasks (abort p r s) q) = cfg_rejectOnAbort (tasks s q)"
  "abort_ref (tasks (abort p r s) q) = abort_ref (tasks s q)"
  "reject_ref (tasks (abort p r s) q) = reject_ref (tasks s q)"
  by (simp_all add: abort_def controller_abort_def Let_def)

lemma abort_sig_reason:
  "sig_reason (tasks (abort p r s) q) =
     (if q = p \<and> sig_reason (tasks s p) = None then Some (abort_value r)
      else sig_reason (tasks s q))"
  by (simp add: abort_def controller_abort_def Let_def)

lemma abort_settlement:
  "settlement (tasks (abort p r s) q) =
     (if q = p \<and> sig_reason (tasks s p) = None \<and> RejL \<in> snd ` set (listeners (tasks s p))
         \<and> settlement (tasks s p) = Pending
      then Rejected (abort_value r) else settlement (tasks s q))"
  by (simp add: abort_def controller_abort_def Let_def dispatch_settlement)

lemma abort_log:
  "log (abort p r s) =
     log s @ EvAbort p r #
       (if sig_reason (tasks s p) = None
        then dispatch_events p (abort_value r) (listeners (tasks s p)) else [])"
  by (simp add: abort_def controller_abort_def Let_def)

lemma onAborted_other [simp]: "q \<noteq> p \<Longrightarrow> tasks (snd (onAborted p l s)) q = tasks s q"
  by (simp add: onAborted_def Let_def)

lemma onAborted_fields [simp]:
  "next_id (snd (onAborted p l s)) = next_id s"
  "host_part (snd (onAborted p l s)) = host_part s"
  "handled (tasks (snd (onAborted p l s)) q) = handled (tasks s q)"
  "log (snd (onAborted p l s)) = log s"
  "microtasks (snd (onAborted p l s)) = microtasks s"
  "settlement (tasks (snd (onAborted p l s)) q) = settlement (tasks s q)"
  "reactions (tasks (snd (onAborted p l s)) q) = reactions (tasks s q)"
  "sig_reason (tasks (snd (onAborted p l s)) q) = sig_reason (tasks s q)"
  "timer (tasks (snd (onAborted p l s)) q) = timer (tasks s q)"
  "ext_signal (tasks (snd (onAborted p l s)) q) = ext_signal (tasks s q)"
  "bridge (tasks (snd (onAborted p l s)) q) = bridge (tasks s q)"
  "cfg_rejectOnAbort (tasks (snd (onAborted p l s)) q) = cfg_rejectOnAbort (tasks s q)"
  "abort_ref (tasks (snd (onAborted p l s)) q) = abort_ref (tasks s q)"
  "reject_ref (tasks (snd (onAborted p l s)) q) = reject_ref (tasks s q)"
  by (simp_all add: onAborted_def Let_def)

lemma onAborted_listeners:
  "listeners (tasks (snd (onAborted p l s)) q) =
     (if q = p then listeners (tasks s p) @ [(next_lid (tasks s p), l)] else listeners (tasks s q))"
  "cleanupFns (tasks (snd (onAborted p l s)) q) =
     (if q = p then cleanupFns (tasks s p) @ [RemoveListener (next_lid (tasks s p)) l]
      else cleanupFns (tasks s q))"
  by (simp_all add: onAborted_def Let_def)

lemma run_cleanup_other [simp]: "q \<noteq> p \<Longrightarrow> tasks (run_cleanup p c s) q = tasks s q"
  by (cases c) simp_all

lemma run_cleanup_fields [simp]:
  "next_id (run_cleanup p c s) = next_id s"
  "host_part (run_cleanup p c s) = host_part s"
  "handled (tasks (run_cleanup p c s) q) = handled (tasks s q)"
  "log (run_cleanup p c s) = log s @ [EvCleanup p c]"
  "microtasks (run_cleanup p c s) = microtasks s"
  "settlement (tasks (run_cleanup p c s) q) = settlement (tasks s q)"
  "reactions (tasks (run_cleanup p c s) q) = reactions (tasks s q)"
  "sig_reason (tasks (run_cleanup p c s) q) = sig_reason (tasks s q)"
  "next_lid (tasks (run_cleanup p c s) q) = next_lid (tasks s q)"
  "cleanupFns (tasks (run_cleanup p c s) q) = cleanupFns (tasks s q)"
  "ext_signal (tasks (run_cleanup p c s) q) = ext_signal (tasks s q)"
  "cfg_rejectOnAbort (tasks (run_cleanup p c s) q) = cfg_rejectOnAbort (tasks s q)"
  "abort_ref (tasks (run_cleanup p c s) q) = abort_ref (tasks s q)"
  "reject_ref (tasks (run_cleanup p c s) q) = reject_ref (tasks s q)"
  by (cases c, simp_all)+

lemma run_cleanups_Nil [simp]: "run_cleanups p [] s = s"
  by (simp add: run_cleanups_def)

lemma run_cleanups_Cons [simp]:
  "run_cleanups p (c # cs) s = run_cleanups p cs (run_cleanup p c s)"
  by (simp add: run_cleanups_def)

lemma run_cleanups_inv:
  assumes "\<And>c s. P (run_cleanup p c s) = P s"
  shows "P (run_cleanups p cs s) = P s"
  using assms by (induction cs arbitrary: s) auto

lemma run_cleanups_other [simp]: "q \<noteq> p \<Longrightarrow> tasks (run_cleanups p cs s) q = tasks s q"
  by (rule run_cleanups_inv) simp

lemma run_cleanups_log [simp]: "log (run_cleanups p cs s) = log s @ map (EvCleanup p) cs"
  by (induction cs arbitrary: s) auto

lemma run_cleanups_fields [simp]:
  "next_id (run_cleanups p cs s) = next_id s"
  "host_part (run_cleanups p cs s) = host_part s"
  "handled (tasks (run_cleanups p cs s) q) = handled (tasks s q)"
  "microtasks (run_cleanups p cs s) = microtasks s"
  "settlement (tasks (run_cleanups p cs s) q) = settlement (tasks s q)"
  "reactions (tasks (run_cleanups p cs s) q) = reactions (tasks s q)"
  "sig_reason (tasks (run_cleanups p cs s) q) = sig_reason (tasks s q)"
  "next_lid (tasks (run_cleanups p cs s) q) = next_lid (tasks s q)"
  "cleanupFns (tasks (run_cleanups p cs s) q) = cleanupFns (tasks s q)"
  "ext_signal (tasks (run_cleanups p cs s) q) = ext_signal (tasks s q)"
  "cfg_rejectOnAbort (tasks (run_cleanups p cs s) q) = cfg_rejectOnAbort (tasks s q)"
  "abort_ref (tasks (run_cleanups p cs s) q) = abort_ref (tasks s q)"
  "reject_ref (tasks (run_cleanups p cs s) q) = reject_ref (tasks s q)"
  by ((rule run_cleanups_inv, (simp; fail))+)

lemma abort_value_simps [simp]:
  "abort_value (VResolved v) = VResolved v"
  "abort_value (VStr x) = VStr x"
  "abort_value (VNum n) = VNum n"
  "abort_value (VTimeoutError t) = VTimeoutError t"
  "abort_value VCancelledError = VCancelledError"
  "abort_value VAbortError = VAbortError"
  "abort_value VUndefined = VAbortError"
  "abort_value (abort_value r) = abort_value r"
  by (simp_all add: abort_value_def)

lemma withCleanup_eq: "withCleanup p fn a s = run_cleanups p (cleanupFns (tasks (fn a s) p)) (fn a s)"
  by (simp add: withCleanup_def Let_def)

lemma resolve_other [simp]: "q \<noteq> p \<Longrightarrow> tasks (resolve p v s) q = tasks s q"
  by (simp add: resolve_def withCleanup_eq)

lemma reject_other [simp]: "q \<noteq> p \<Longrightarrow> tasks (reject p v s) q = tasks s q"
  by (simp add: reject_def withCleanup_eq)

lemma resolve_fields [simp]:
  "next_id (resolve p v s) = next_id s"
  "host_part (resolve p v s) = host_part s"
  "handled (tasks (resolve p v s) q) = handled (tasks s q)"
  "next_lid (tasks (resolve p v s) q) = next_lid (tasks s q)"
  "cleanupFns (tasks (resolve p v s) q) = cleanupFns (tasks s q)"
  "ext_signal (tasks (resolve p v s) q) = ext_signal (tasks s q)"
  "cfg_rejectOnAbort (tasks (resolve p v s) q) = cfg_rejectOnAbort (tasks s q)"
  "abort_ref (tasks (resolve p v s) q) = abort_ref (tasks s q)"
  "reject_ref (tasks (resolve p v s) q) = reject_ref (tasks s q)"
  by (simp_all add: resolve_def withCleanup_eq)

lemma reject_fields [simp]:
  "next_id (reject p v s) = next_id s"
  "host_part (reject p v s) = host_part s"
  "handled (tasks (reject p v s) q) = handled (tasks s q)"
  "next_lid (tasks (reject p v s) q) = next_lid (tasks s q)"
  "cleanupFns (tasks (reject p v s) q) = cleanupFns (tasks s q)"
  "ext_signal (tasks (reject p v s) q) = ext_signal (tasks s q)"
  "cfg_rejectOnAbort (tasks (reject p v s) q) = cfg_rejectOnAbort (tasks s q)"
  "abort_ref (tasks (reject p v s) q) = abort_ref (tasks s q)"
  "reject_ref (tasks (reject p v s) q) = reject_ref (tasks s q)"
  by (simp_all add: reject_def withCleanup_eq)

lemma resolve_settlement:
  "settlement (tasks (resolve p v s) q) =
     (if q = p \<and> settlement (tasks s p) = Pending then Fulfilled v else settlement (tasks s q))"
  by (simp add: resolve_def withCleanup_eq abort_settlement)

lemma reject_settlement:
  "settlement (tasks (reject p r s) q) =
     (if q = p \<and> settlement (tasks s p) = Pending then Rejected r else settlement (tasks s q))"
  by (simp add: reject_def withCleanup_eq abort_settlement)

lemma resolve_sig_reason:
  "sig_reason (tasks (resolve p v s) q) =
     (if q = p \<and> sig_reason (tasks s p) = None then Some (VResolved v)
      else sig_reason (tasks s q))"
  by (simp add: resolve_def withCleanup_eq abort_sig_reason withResolved_def)

lemma reject_sig_reason:
  "sig_reason (tasks (reject p r s) q) =
     (if q = p \<and> sig_reason (tasks s p) = None then Some (abort_value r)
      else sig_reason (tasks s q))"
  by (simp add: reject_def withCleanup_eq abort_sig_reason)

lemma resolve_log:
  "log (resolve p v s) =
     log s @ [EvRes p v, EvAbort p (withResolved v)] @
       (if sig_reason (tasks s p) = None
        then dispatch_events p (withResolved v) (listeners (tasks s p)) else []) @
       map (EvCleanup p) (cleanupFns (tasks s p))"
  by (simp add: resolve_def withCleanup_eq abort_log withResolved_def)

lemma reject_log:
  "log (reject p r s) =
     log s @ [EvRej p r, EvAbort p r] @
       (if sig_reason (tasks s p) = None
        then dispatch_events p (abort_value r) (listeners (tasks s p)) else []) @
       map (EvCleanup p) (cleanupFns (tasks s p))"
  by (simp add: reject_def withCleanup_eq abort_log)

lemma notify_events_no_cleanup: "EvCleanup p' c \<notin> set (notify_events p r l)"
  by (cases l) (simp_all split: val.splits)

lemma dispatch_events_no_cleanup: "EvCleanup p' c \<notin> set (dispatch_events p r ls)"
  by (induction ls) (auto simp: dispatch_events_def notify_events_no_cleanup)

lemma count_list_map_EvCleanup:
  "count_list (map (EvCleanup p) cs) (EvCleanup p c) = count_list cs c"
  by (induction cs) auto

lemma count_cleanup_reject:
  "count_list (log (reject p r s)) (EvCleanup p c) =
     count_list (log s) (EvCleanup p c) + count_list (cleanupFns (tasks s p)) c"
  by (simp add: reject_log count_list_map_EvCleanup count_list_0_iff dispatch_events_no_cleanup)

lemma count_cleanup_resolve:
  "count_list (log (resolve p v s)) (EvCleanup p c) =
     count_list (log s) (EvCleanup p c) + count_list (cleanupFns (tasks s p)) c"
  by (simp add: resolve_log count_list_map_EvCleanup count_list_0_iff dispatch_events_no_cleanup)

lemma reject_funpow_cleanupFns:
  "cleanupFns (tasks ((reject p r ^^ n) s) p) = cleanupFns (tasks s p)"
  by (induction n) simp_all

lemma count_cleanup_reject_funpow:
  "count_list (log ((reject p r ^^ n) s)) (EvCleanup p c) =
     count_list (log s) (EvCleanup p c) + n * count_list (cleanupFns (tasks s p)) c"
  by (induction n) (simp_all add: count_cleanup_reject reject_funpow_cleanupFns)

section \<open>What every history keeps\<close>

lemma run_cleanup_listeners_subset:
  "set (listeners (tasks (run_cleanup p c s) q)) \<subseteq> set (listeners (tasks s q))"
  by (cases c) auto

lemma run_cleanups_listeners_subset:
  "set (listeners (tasks (run_cleanups p cs s) q)) \<subseteq> set (listeners (tasks s q))"
proof (induction cs arbitrary: s)
  case Nil
  show ?case by simp
next
  case (Cons c cs)
  have "set (listeners (tasks (run_cleanups p cs (run_cleanup p c s)) q))
          \<subseteq> set (listeners (tasks (run_cleanup p c s) q))"
    by (rule Cons.IH)
  also have "\<dots> \<subseteq> set (listeners (tasks s q))"
    by (rule run_cleanup_listeners_subset)
  finally show ?case by simp
qed

lemma resolve_listeners_subset:
  "set (listeners (tasks (resolve p v s) q)) \<subseteq> set (listeners (tasks s q))"
  using run_cleanups_listeners_subset [of p _ "abort p (withResolved v) (res p v s)" q]
  by (simp add: resolve_def withCleanup_eq)

lemma reject_listeners_subset:
  "set (listeners (tasks (reject p r s) q)) \<subseteq> set (listeners (tasks s q))"
  using run_cleanups_listeners_subset [of p _ "abort p r (rej p r s)" q]
  by (simp add: reject_def withCleanup_eq)

lemma task_inv_other:
  "tasks s' q = tasks s q \<Longrightarrow> task_inv (tasks s q) \<Longrightarrow> task_inv (tasks s' q)"
  by simp

lemma abort_task_inv: "task_inv (tasks s q) \<Longrightarrow> task_inv (tasks (abort p r s) q)"
proof (cases "q = p")
  case False
  assume "task_inv (tasks s q)"
  with False show ?thesis by simp
next
  case True
  assume "task_inv (tasks s q)"
  with True show ?thesis
    by (cases "sig_reason (tasks s p)") (simp_all add: task_inv_def abort_sig_reason abort_settlement)
qed

lemma task_inv_aborted:
  "sig_reason t \<noteq> None \<Longrightarrow> (\<not> cfg_rejectOnAbort t \<longrightarrow> RejL \<notin> snd ` set (listeners t)) \<Longrightarrow>
     task_inv t"
  by (auto simp: task_inv_def)

lemma reject_aborted: "sig_reason (tasks (reject p r s) p) \<noteq> None"
  by (simp add: reject_sig_reason)

lemma resolve_aborted: "sig_reason (tasks (resolve p r s) p) \<noteq> None"
  by (simp add: resolve_sig_reason)

lemma resolve_task_inv: "task_inv (tasks s q) \<Longrightarrow> task_inv (tasks (resolve p v s) q)"
proof (cases "q = p")
  case False
  assume "task_inv (tasks s q)"
  with False show ?thesis by simp
next
  case True
  assume a: "task_inv (tasks s q)"
  have "\<not> cfg_rejectOnAbort (tasks s p) \<longrightarrow> RejL \<notin> snd ` set (listeners (tasks (resolve p v s) p))"
    using a True resolve_listeners_subset [of p v s p] by (auto simp: task_inv_def)
  then show ?thesis
    using True by (intro task_inv_aborted) (simp_all add: resolve_aborted)
qed

lemma reject_task_inv: "task_inv (tasks s q) \<Longrightarrow> task_inv (tasks (reject p r s) q)"
proof (cases "q = p")
  case False
  assume "task_inv (tasks s q)"
  with False show ?thesis by simp
next
  case True
  assume a: "task_inv (tasks s q)"
  have "\<not> cfg_rejectOnAbort (tasks s p) \<longrightarrow> RejL \<notin> snd ` set (listeners (tasks (reject p r s) p))"
    using a True reject_listeners_subset [of p r s p] by (auto simp: task_inv_def)
  then show ?thesis
    using True by (intro task_inv_aborted) (simp_all add: reject_aborted)
qed

lemma onAborted_task_inv:
  "task_inv (tasks s q) \<Longrightarrow> l \<noteq> RejL \<Longrightarrow> task_inv (tasks (snd (onAborted p l s)) q)"
  by (auto simp: task_inv_def onAborted_listeners)

lemma unsubscribe_task_inv:
  "task_inv (tasks s q) \<Longrightarrow> l \<noteq> RejL \<Longrightarrow>
     task_inv (tasks (run_cleanup p (RemoveListener k l) s) q)"
  by (auto simp: task_inv_def image_iff)

lemma task_inv_cong:
  "sig_reason t' = sig_reason t \<Longrightarrow> settlement t' = settlement t \<Longrightarrow>
   cfg_rejectOnAbort t' = cfg_rejectOnAbort t \<Longrightarrow> listeners t' = listeners t \<Longrightarrow>
   ext_signal t' = ext_signal t \<Longrightarrow> bridge t' = bridge t \<Longrightarrow>
   task_inv t' = task_inv t"
  by (simp add: task_inv_def)

lemma timer_fires_task_inv: "task_inv (tasks s q) \<Longrightarrow> task_inv (tasks (timer_fires p s) q)"
proof -
  assume a: "task_inv (tasks s q)"
  have "task_inv (tasks (upd_task p (\<lambda>x. x\<lparr>timer := Fired\<rparr>) s) q) = task_inv (tasks s q)"
    by (rule task_inv_cong) simp_all
  with a have "task_inv (tasks (upd_task p (\<lambda>x. x\<lparr>timer := Fired\<rparr>) s) q)" by simp
  then show ?thesis
    using a by (simp add: timer_fires_def abort_task_inv split: timer.splits)
qed

lemma external_abort_task_inv:
  "task_inv (tasks s q) \<Longrightarrow> task_inv (tasks (external_abort p r s) q)"
proof -
  assume a: "task_inv (tasks s q)"
  have "task_inv (tasks (upd_task p (\<lambda>t. t\<lparr>ext_signal := Some (Some (abort_value r))\<rparr>) s) q)"
    using a by (auto simp: task_inv_def)
  then show ?thesis
    using a by (simp add: external_abort_def Let_def abort_task_inv split: option.splits)
qed

lemma run_op_task_inv: "task_inv (tasks s q) \<Longrightarrow> task_inv (tasks (snd (run_op p x s)) q)"
  by (cases x) (simp_all add: resolve_task_inv reject_task_inv onAborted_task_inv split: option.splits)

lemma run_ops_task_inv: "task_inv (tasks s q) \<Longrightarrow> task_inv (tasks (snd (run_ops p xs s)) q)"
proof (induction xs arbitrary: s)
  case Nil
  then show ?case by simp
next
  case (Cons x xs)
  have "task_inv (tasks (snd (run_op p x s)) q)"
    using Cons.prems by (rule run_op_task_inv)
  then show ?case
    using Cons.IH [of "snd (run_op p x s)"]
    by (cases "run_op p x s") (auto split: option.splits)
qed

lemma run_op_other [simp]: "q \<noteq> p \<Longrightarrow> tasks (snd (run_op p x s)) q = tasks s q"
  by (cases x) (simp_all split: option.splits)

lemma run_op_fields [simp]:
  "next_id (snd (run_op p x s)) = next_id s"
  "host_part (snd (run_op p x s)) = host_part s"
  "handled (tasks (snd (run_op p x s)) q) = handled (tasks s q)"
  "cfg_rejectOnAbort (tasks (snd (run_op p x s)) q) = cfg_rejectOnAbort (tasks s q)"
  "abort_ref (tasks (snd (run_op p x s)) q) = abort_ref (tasks s q)"
  "reject_ref (tasks (snd (run_op p x s)) q) = reject_ref (tasks s q)"
  "ext_signal (tasks (snd (run_op p x s)) q) = ext_signal (tasks s q)"
  by (cases x, simp_all split: option.splits)+

lemma run_ops_inv:
  assumes "\<And>x s. P (snd (run_op p x s)) = P s"
  shows "P (snd (run_ops p xs s)) = P s"
proof (induction xs arbitrary: s)
  case Nil
  show ?case by simp
next
  case (Cons x xs)
  show ?case
    using Cons.IH [of "snd (run_op p x s)"] assms [of x s]
    by (cases "run_op p x s") (auto split: option.splits)
qed

lemma run_ops_other [simp]: "q \<noteq> p \<Longrightarrow> tasks (snd (run_ops p xs s)) q = tasks s q"
  by (rule run_ops_inv) simp

lemma run_ops_fields [simp]:
  "next_id (snd (run_ops p xs s)) = next_id s"
  "host_part (snd (run_ops p xs s)) = host_part s"
  "handled (tasks (snd (run_ops p xs s)) q) = handled (tasks s q)"
  "cfg_rejectOnAbort (tasks (snd (run_ops p xs s)) q) = cfg_rejectOnAbort (tasks s q)"
  "abort_ref (tasks (snd (run_ops p xs s)) q) = abort_ref (tasks s q)"
  "reject_ref (tasks (snd (run_ops p xs s)) q) = reject_ref (tasks s q)"
  "ext_signal (tasks (snd (run_ops p xs s)) q) = ext_signal (tasks s q)"
  by ((rule run_ops_inv, (simp; fail))+)

lemma call_executor_snd:
  "snd (call_executor p ex s) =
     (case ex of
        None \<Rightarrow> s
      | Some e \<Rightarrow>
          (case fst (run_ops p (fst e) (add_log (EvExecutor p) s)) of
             Some x \<Rightarrow> reject p x (snd (run_ops p (fst e) (add_log (EvExecutor p) s)))
           | None \<Rightarrow> snd (run_ops p (fst e) (add_log (EvExecutor p) s))))"
  by (cases ex; cases "run_ops p (fst (the ex)) (add_log (EvExecutor p) s)")
     (auto simp: call_executor_def split: option.splits prod.splits)

lemma call_executor_inv:
  assumes "\<And>x s. P (snd (run_op p x s)) = P s" and "\<And>r s. P (reject p r s) = P s"
    and "\<And>e s. P (add_log e s) = P s"
  shows "P (snd (call_executor p ex s)) = P s"
  using assms(2,3) run_ops_inv [of P p _ "add_log (EvExecutor p) s", OF assms(1)]
  by (simp add: call_executor_snd split: option.splits)

lemma call_executor_other [simp]:
  "q \<noteq> p \<Longrightarrow> tasks (snd (call_executor p ex s)) q = tasks s q"
  by (rule call_executor_inv) simp_all

lemma call_executor_fields [simp]:
  "next_id (snd (call_executor p ex s)) = next_id s"
  "host_part (snd (call_executor p ex s)) = host_part s"
  "handled (tasks (snd (call_executor p ex s)) q) = handled (tasks s q)"
  "cfg_rejectOnAbort (tasks (snd (call_executor p ex s)) q) = cfg_rejectOnAbort (tasks s q)"
  "abort_ref (tasks (snd (call_executor p ex s)) q) = abort_ref (tasks s q)"
  "reject_ref (tasks (snd (call_executor p ex s)) q) = reject_ref (tasks s q)"
  "ext_signal (tasks (snd (call_executor p ex s)) q) = ext_signal (tasks s q)"
  by ((rule call_executor_inv, (simp; fail), (simp; fail), (simp; fail))+)

lemma call_executor_task_inv:
  "task_inv (tasks s q) \<Longrightarrow> task_inv (tasks (snd (call_executor p ex s)) q)"
  by (simp add: call_executor_snd reject_task_inv run_ops_task_inv split: option.splits)

lemma process_abortSignal_fst: "fst (process_abortSignal p opts roa s) = ((\<exists>r. abortSignal opts = Some (Some r)) \<and> roa)"
  by (simp add: process_abortSignal_def split: option.splits)

lemma executor_body_unfold:
  "executor_body ex opts s =
     (if short_circuit opts
      then (next_id s, RetUndefined,
            snd (process_abortSignal (next_id s) opts (roa_of opts) (alloc (roa_of opts) opts s)))
      else (next_id s, call_executor (next_id s) ex (pre_executor opts s)))"
  by (simp add: executor_body_def Let_def case_prod_beta pre_executor_def
      short_circuit_def process_abortSignal_fst)

lemma alloc_simps [simp]:
  "next_id (alloc roa opts s) = Suc (next_id s)"
  "host_part (alloc roa opts s) = host_part s"
  "log (alloc roa opts s) = log s"
  "microtasks (alloc roa opts s) = microtasks s"
  "q \<noteq> next_id s \<Longrightarrow> tasks (alloc roa opts s) q = tasks s q"
  "tasks (alloc roa opts s) (next_id s) = blank_task\<lparr>ext_signal := abortSignal opts, cfg_rejectOnAbort := roa\<rparr>"
  by (simp_all add: alloc_def host_part_def)

lemma process_abortSignal_other [simp]:
  "q \<noteq> p \<Longrightarrow> tasks (snd (process_abortSignal p opts roa s)) q = tasks s q"
  by (simp add: process_abortSignal_def split: option.splits)

lemma process_abortSignal_fields [simp]:
  "next_id (snd (process_abortSignal p opts roa s)) = next_id s"
  "host_part (snd (process_abortSignal p opts roa s)) = host_part s"
  "cfg_rejectOnAbort (tasks (snd (process_abortSignal p opts roa s)) q) = cfg_rejectOnAbort (tasks s q)"
  "abort_ref (tasks (snd (process_abortSignal p opts roa s)) q) = abort_ref (tasks s q)"
  "reject_ref (tasks (snd (process_abortSignal p opts roa s)) q) = reject_ref (tasks s q)"
  "ext_signal (tasks (snd (process_abortSignal p opts roa s)) q) = ext_signal (tasks s q)"
  "next_lid (tasks (snd (process_abortSignal p opts roa s)) q) = next_lid (tasks s q)"
  by (simp_all add: process_abortSignal_def split: option.splits)

lemma process_rejectOnAbort_other [simp]:
  "q \<noteq> p \<Longrightarrow> tasks (process_rejectOnAbort p roa s) q = tasks s q"
  by (simp add: process_rejectOnAbort_def)

lemma process_rejectOnAbort_fields [simp]:
  "next_id (process_rejectOnAbort p roa s) = next_id s"
  "host_part (process_rejectOnAbort p roa s) = host_part s"
  "log (process_rejectOnAbort p roa s) = log s"
  "microtasks (process_rejectOnAbort p roa s) = microtasks s"
  "settlement (tasks (process_rejectOnAbort p roa s) q) = settlement (tasks s q)"
  "reactions (tasks (process_rejectOnAbort p roa s) q) = reactions (tasks s q)"
  "sig_reason (tasks (process_rejectOnAbort p roa s) q) = sig_reason (tasks s q)"
  "timer (tasks (process_rejectOnAbort p roa s) q) = timer (tasks s q)"
  "ext_signal (tasks (process_rejectOnAbort p roa s) q) = ext_signal (tasks s q)"
  "bridge (tasks (process_rejectOnAbort p roa s) q) = bridge (tasks s q)"
  "cfg_rejectOnAbort (tasks (process_rejectOnAbort p roa s) q) = cfg_rejectOnAbort (tasks s q)"
  "abort_ref (tasks (process_rejectOnAbort p roa s) q) = abort_ref (tasks s q)"
  "reject_ref (tasks (process_rejectOnAbort p roa s) q) = reject_ref (tasks s q)"
  by (simp_all add: process_rejectOnAbort_def)

lemma process_timeout_other [simp]:
  "q \<noteq> p \<Longrightarrow> tasks (process_timeout p opts s) q = tasks s q"
  by (simp add: process_timeout_def split: option.splits)

lemma process_timeout_fields [simp]:
  "next_id (process_timeout p opts s) = next_id s"
  "host_part (process_timeout p opts s) = host_part s"
  "log (process_timeout p opts s) = log s"
  "microtasks (process_timeout p opts s) = microtasks s"
  "settlement (tasks (process_timeout p opts s) q) = settlement (tasks s q)"
  "reactions (tasks (process_timeout p opts s) q) = reactions (tasks s q)"
  "sig_reason (tasks (process_timeout p opts s) q) = sig_reason (tasks s q)"
  "listeners (tasks (process_timeout p opts s) q) = listeners (tasks s q)"
  "next_lid (tasks (process_timeout p opts s) q) = next_lid (tasks s q)"
  "ext_signal (tasks (process_timeout p opts s) q) = ext_signal (tasks s q)"
  "bridge (tasks (process_timeout p opts s) q) = bridge (tasks s q)"
  "cfg_rejectOnAbort (tasks (process_timeout p opts s) q) = cfg_rejectOnAbort (tasks s q)"
  "abort_ref (tasks (process_timeout p opts s) q) = abort_ref (tasks s q)"
  "reject_ref (tasks (process_timeout p opts s) q) = reject_ref (tasks s q)"
  by (simp_all add: process_timeout_def split: option.splits)

lemma pre_executor_other [simp]:
  "q \<noteq> next_id s \<Longrightarrow> tasks (pre_executor opts s) q = tasks s q"
  by (simp add: pre_executor_def)

lemma pre_executor_fields [simp]:
  "next_id (pre_executor opts s) = Suc (next_id s)"
  "host_part (pre_executor opts s) = host_part s"
  "cfg_rejectOnAbort (tasks (pre_executor opts s) (next_id s)) = roa_of opts"
  "ext_signal (tasks (pre_executor opts s) (next_id s)) = abortSignal opts"
  by (simp_all add: pre_executor_def)

lemma pre_executor_task_inv:
  "\<not> short_circuit opts \<Longrightarrow> task_inv (tasks (pre_executor opts s) (next_id s))"
  by (auto simp: pre_executor_def short_circuit_def task_inv_def process_abortSignal_def
      process_rejectOnAbort_def onAborted_listeners abort_sig_reason abort_settlement
      blank_task_def split: option.splits)

lemma short_circuit_task_inv:
  "short_circuit opts \<Longrightarrow>
     task_inv (tasks (snd (process_abortSignal (next_id s) opts (roa_of opts)
       (alloc (roa_of opts) opts s))) (next_id s))"
  by (auto simp: short_circuit_def process_abortSignal_def reject_sig_reason
      intro!: task_inv_aborted)

lemma executor_body_fst [simp]: "fst (executor_body ex opts s) = next_id s"
  by (simp add: executor_body_unfold)

lemma executor_body_other [simp]:
  "q \<noteq> next_id s \<Longrightarrow> tasks (snd (snd (executor_body ex opts s))) q = tasks s q"
  by (simp add: executor_body_unfold)

lemma executor_body_fields [simp]:
  "next_id (snd (snd (executor_body ex opts s))) = Suc (next_id s)"
  "host_part (snd (snd (executor_body ex opts s))) = host_part s"
  "cfg_rejectOnAbort (tasks (snd (snd (executor_body ex opts s))) (next_id s)) = roa_of opts"
  "ext_signal (tasks (snd (snd (executor_body ex opts s))) (next_id s)) = abortSignal opts"
  by (simp_all add: executor_body_unfold)

lemma executor_body_task_inv:
  "task_inv (tasks (snd (snd (executor_body ex opts s))) (next_id s))"
  by (simp add: executor_body_unfold short_circuit_task_inv pre_executor_task_inv
      call_executor_task_inv)

lemma store_inv_local:
  assumes "store_inv s"
    and "\<And>q. task_inv (tasks s q) \<Longrightarrow> task_inv (tasks s' q)"
    and "next_id s' = next_id s"
    and "\<And>q. cfg_rejectOnAbort (tasks s' q) = cfg_rejectOnAbort (tasks s q)"
    and "\<And>q. abort_ref (tasks s' q) = abort_ref (tasks s q)"
  shows "store_inv s'"
  using assms by (simp add: store_inv_def)

lemma timer_fires_fields [simp]:
  "next_id (timer_fires p s) = next_id s"
  "cfg_rejectOnAbort (tasks (timer_fires p s) q) = cfg_rejectOnAbort (tasks s q)"
  "abort_ref (tasks (timer_fires p s) q) = abort_ref (tasks s q)"
  "reject_ref (tasks (timer_fires p s) q) = reject_ref (tasks s q)"
  by (simp_all add: timer_fires_def split: timer.splits)

lemma external_abort_fields [simp]:
  "next_id (external_abort p r s) = next_id s"
  "cfg_rejectOnAbort (tasks (external_abort p r s) q) = cfg_rejectOnAbort (tasks s q)"
  "abort_ref (tasks (external_abort p r s) q) = abort_ref (tasks s q)"
  "reject_ref (tasks (external_abort p r s) q) = reject_ref (tasks s q)"
  by (simp_all add: external_abort_def Let_def split: option.splits)

lemma call_handler_fields [simp]:
  "next_id (snd (call_handler h a s)) = next_id s"
  "cfg_rejectOnAbort (tasks (snd (call_handler h a s)) q) = cfg_rejectOnAbort (tasks s q)"
  "abort_ref (tasks (snd (call_handler h a s)) q) = abort_ref (tasks s q)"
  "reject_ref (tasks (snd (call_handler h a s)) q) = reject_ref (tasks s q)"
  by (cases h, simp_all)+

lemma call_handler_task_inv:
  "task_inv (tasks s q) \<Longrightarrow> task_inv (tasks (snd (call_handler h a s)) q)"
  by (cases h) (simp_all add: reject_task_inv)

lemma complete_fields [simp]:
  "next_id (complete c x) = next_id (snd x)"
  "cfg_rejectOnAbort (tasks (complete c x) q) = cfg_rejectOnAbort (tasks (snd x) q)"
  "abort_ref (tasks (complete c x) q) = abort_ref (tasks (snd x) q)"
  "reject_ref (tasks (complete c x) q) = reject_ref (tasks (snd x) q)"
  by (cases "(c, x)" rule: complete.cases, simp_all)+

lemma complete_task_inv:
  "task_inv (tasks (snd x) q) \<Longrightarrow> task_inv (tasks (complete c x) q)"
  by (cases "(c, x)" rule: complete.cases) (simp_all add: resolve_task_inv reject_task_inv)

lemma run_job_fields [simp]:
  "next_id (run_job j s) = next_id s"
  "cfg_rejectOnAbort (tasks (run_job j s) q) = cfg_rejectOnAbort (tasks s q)"
  "abort_ref (tasks (run_job j s) q) = abort_ref (tasks s q)"
  "reject_ref (tasks (run_job j s) q) = reject_ref (tasks s q)"
  by (cases "(j, s)" rule: run_job.cases, simp_all split: option.splits)+

lemma run_job_task_inv: "task_inv (tasks s q) \<Longrightarrow> task_inv (tasks (run_job j s) q)"
  by (cases "(j, s)" rule: run_job.cases)
     (simp_all add: complete_task_inv call_handler_task_inv split: option.splits)

lemma run_microtask_fields [simp]:
  "next_id (run_microtask s) = next_id s"
  "cfg_rejectOnAbort (tasks (run_microtask s) q) = cfg_rejectOnAbort (tasks s q)"
  "abort_ref (tasks (run_microtask s) q) = abort_ref (tasks s q)"
  "reject_ref (tasks (run_microtask s) q) = reject_ref (tasks s q)"
  by (simp_all add: run_microtask_def split: list.splits)

lemma run_microtask_task_inv: "task_inv (tasks s q) \<Longrightarrow> task_inv (tasks (run_microtask s) q)"
proof -
  assume a: "task_inv (tasks s q)"
  show ?thesis
  proof (cases "microtasks s")
    case Nil
    with a show ?thesis by (simp add: run_microtask_def)
  next
    case (Cons j js)
    have "task_inv (tasks (s\<lparr>microtasks := js\<rparr>) q)" using a by simp
    then have "task_inv (tasks (run_job j (s\<lparr>microtasks := js\<rparr>)) q)" by (rule run_job_task_inv)
    with Cons show ?thesis by (simp add: run_microtask_def)
  qed
qed

lemma roa_of_no_options [simp]: "roa_of no_options = True"
  by (simp add: roa_of_def no_options_def)

lemma assign_props_simps [simp]:
  "next_id (assign_props p s) = next_id s"
  "host_part (assign_props p s) = host_part s"
  "handled (tasks (assign_props p s) q) = handled (tasks s q)"
  "log (assign_props p s) = log s"
  "microtasks (assign_props p s) = microtasks s"
  "q \<noteq> p \<Longrightarrow> tasks (assign_props p s) q = tasks s q"
  "settlement (tasks (assign_props p s) q) = settlement (tasks s q)"
  "reactions (tasks (assign_props p s) q) = reactions (tasks s q)"
  "sig_reason (tasks (assign_props p s) q) = sig_reason (tasks s q)"
  "listeners (tasks (assign_props p s) q) = listeners (tasks s q)"
  "next_lid (tasks (assign_props p s) q) = next_lid (tasks s q)"
  "cleanupFns (tasks (assign_props p s) q) = cleanupFns (tasks s q)"
  "timer (tasks (assign_props p s) q) = timer (tasks s q)"
  "ext_signal (tasks (assign_props p s) q) = ext_signal (tasks s q)"
  "bridge (tasks (assign_props p s) q) = bridge (tasks s q)"
  "cfg_rejectOnAbort (tasks (assign_props p s) q) = cfg_rejectOnAbort (tasks s q)"
  "abort_ref (tasks (assign_props p s) q) = (if q = p then p else abort_ref (tasks s q))"
  "reject_ref (tasks (assign_props p s) q) = (if q = p then p else reject_ref (tasks s q))"
  by (simp_all add: assign_props_def)

lemma assign_props_task_inv [simp]:
  "task_inv (tasks (assign_props p s) q) = task_inv (tasks s q)"
  by (rule task_inv_cong) simp_all

lemma reassignProps_simps [simp]:
  "next_id (reassignProps c p s) = next_id s"
  "host_part (reassignProps c p s) = host_part s"
  "handled (tasks (reassignProps c p s) q) = handled (tasks s q)"
  "log (reassignProps c p s) = log s"
  "microtasks (reassignProps c p s) = microtasks s"
  "q \<noteq> c \<Longrightarrow> tasks (reassignProps c p s) q = tasks s q"
  "settlement (tasks (reassignProps c p s) q) = settlement (tasks s q)"
  "reactions (tasks (reassignProps c p s) q) = reactions (tasks s q)"
  "sig_reason (tasks (reassignProps c p s) q) = sig_reason (tasks s q)"
  "listeners (tasks (reassignProps c p s) q) = listeners (tasks s q)"
  "next_lid (tasks (reassignProps c p s) q) = next_lid (tasks s q)"
  "cleanupFns (tasks (reassignProps c p s) q) = cleanupFns (tasks s q)"
  "timer (tasks (reassignProps c p s) q) = timer (tasks s q)"
  "ext_signal (tasks (reassignProps c p s) q) = ext_signal (tasks s q)"
  "bridge (tasks (reassignProps c p s) q) = bridge (tasks s q)"
  "cfg_rejectOnAbort (tasks (reassignProps c p s) q) = cfg_rejectOnAbort (tasks s q)"
  "abort_ref (tasks (reassignProps c p s) q) =
     (if q = c then abort_ref (tasks s p) else abort_ref (tasks s q))"
  "reject_ref (tasks (reassignProps c p s) q) =
     (if q = c then reject_ref (tasks s p) else reject_ref (tasks s q))"
  by (simp_all add: reassignProps_def)

lemma reassignProps_task_inv [simp]:
  "task_inv (tasks (reassignProps c p s) q) = task_inv (tasks s q)"
  by (rule task_inv_cong) simp_all

lemma new_capability_unfold:
  "new_capability s =
     (next_id s,
      assign_props (next_id s) (snd (snd (executor_body (Some ([], RetUndefined)) no_options s))))"
  by (simp add: new_capability_def case_prod_beta)

lemma new_capability_simps [simp]:
  "fst (new_capability s) = next_id s"
  "next_id (snd (new_capability s)) = Suc (next_id s)"
  "host_part (snd (new_capability s)) = host_part s"
  "q \<noteq> next_id s \<Longrightarrow> tasks (snd (new_capability s)) q = tasks s q"
  "cfg_rejectOnAbort (tasks (snd (new_capability s)) (next_id s)) = True"
  "abort_ref (tasks (snd (new_capability s)) (next_id s)) = next_id s"
  "reject_ref (tasks (snd (new_capability s)) (next_id s)) = next_id s"
  "task_inv (tasks (snd (new_capability s)) (next_id s))"
  by (simp_all add: new_capability_unfold executor_body_task_inv)

lemma super_then_snd:
  "snd (super_then p f g s) =
     upd_task p (\<lambda>t. t\<lparr>handled := True\<rparr>)
       (case settlement (tasks (snd (new_capability s)) p) of
          Pending \<Rightarrow> upd_task p (\<lambda>t. t\<lparr>reactions := reactions t @ [(Task (next_id s), f, g)]\<rparr>)
                       (snd (new_capability s))
        | Fulfilled v \<Rightarrow> (snd (new_capability s))
            \<lparr>microtasks := microtasks (snd (new_capability s)) @ [((Task (next_id s), f, g), OkV v)]\<rparr>
        | Rejected e \<Rightarrow> (snd (new_capability s))
            \<lparr>microtasks := microtasks (snd (new_capability s)) @ [((Task (next_id s), f, g), ErrV e)]\<rparr>)"
  by (simp add: super_then_def case_prod_beta Let_def split: settlement.splits)

lemma super_then_inv:
  assumes "\<And>h s. P (upd_task p (\<lambda>t. t\<lparr>reactions := h t\<rparr>) s) = P s"
    and "\<And>m s. P (s\<lparr>microtasks := m\<rparr>) = P s"
    and "\<And>s. P (upd_task p (\<lambda>t. t\<lparr>handled := True\<rparr>) s) = P s"
  shows "P (snd (super_then p f g s)) = P (snd (new_capability s))"
  using assms by (simp add: super_then_snd split: settlement.splits)

lemma super_then_simps [simp]:
  "fst (super_then p f g s) = next_id s"
  "next_id (snd (super_then p f g s)) = Suc (next_id s)"
  "log (snd (super_then p f g s)) = log (snd (new_capability s))"
  "settlement (tasks (snd (super_then p f g s)) q) = settlement (tasks (snd (new_capability s)) q)"
  "sig_reason (tasks (snd (super_then p f g s)) q) = sig_reason (tasks (snd (new_capability s)) q)"
  "listeners (tasks (snd (super_then p f g s)) q) = listeners (tasks (snd (new_capability s)) q)"
  "cleanupFns (tasks (snd (super_then p f g s)) q) = cleanupFns (tasks (snd (new_capability s)) q)"
  "timer (tasks (snd (super_then p f g s)) q) = timer (tasks (snd (new_capability s)) q)"
  "ext_signal (tasks (snd (super_then p f g s)) q) = ext_signal (tasks (snd (new_capability s)) q)"
  "cfg_rejectOnAbort (tasks (snd (super_then p f g s)) q)
     = cfg_rejectOnAbort (tasks (snd (new_capability s)) q)"
  "abort_ref (tasks (snd (super_then p f g s)) q) = abort_ref (tasks (snd (new_capability s)) q)"
  "reject_ref (tasks (snd (super_then p f g s)) q) = reject_ref (tasks (snd (new_capability s)) q)"
  "task_inv (tasks (snd (super_then p f g s)) q) = task_inv (tasks (snd (new_capability s)) q)"
  "host_part (snd (super_then p f g s)) = host_part s"
  "bridge (tasks (snd (super_then p f g s)) q) = bridge (tasks (snd (new_capability s)) q)"
proof -
  show "fst (super_then p f g s) = next_id s"
    by (simp add: super_then_def case_prod_beta Let_def)
  show "next_id (snd (super_then p f g s)) = Suc (next_id s)"
    using super_then_inv [of next_id p f g s] by simp
  show "log (snd (super_then p f g s)) = log (snd (new_capability s))"
    by (rule super_then_inv) simp_all
  show "settlement (tasks (snd (super_then p f g s)) q) = settlement (tasks (snd (new_capability s)) q)"
    by (rule super_then_inv) simp_all
  show "sig_reason (tasks (snd (super_then p f g s)) q) = sig_reason (tasks (snd (new_capability s)) q)"
    by (rule super_then_inv) simp_all
  show "listeners (tasks (snd (super_then p f g s)) q) = listeners (tasks (snd (new_capability s)) q)"
    by (rule super_then_inv) simp_all
  show "cleanupFns (tasks (snd (super_then p f g s)) q) = cleanupFns (tasks (snd (new_capability s)) q)"
    by (rule super_then_inv) simp_all
  show "timer (tasks (snd (super_then p f g s)) q) = timer (tasks (snd (new_capability s)) q)"
    by (rule super_then_inv) simp_all
  show "ext_signal (tasks (snd (super_then p f g s)) q) = ext_signal (tasks (snd (new_capability s)) q)"
    by (rule super_then_inv) simp_all
  show "cfg_rejectOnAbort (tasks (snd (super_then p f g s)) q)
     = cfg_rejectOnAbort (tasks (snd (new_capability s)) q)"
    by (rule super_then_inv) simp_all
  show "abort_ref (tasks (snd (super_then p f g s)) q) = abort_ref (tasks (snd (new_capability s)) q)"
    by (rule super_then_inv) simp_all
  show "reject_ref (tasks (snd (super_then p f g s)) q) = reject_ref (tasks (snd (new_capability s)) q)"
    by (rule super_then_inv) simp_all
  show "task_inv (tasks (snd (super_then p f g s)) q) = task_inv (tasks (snd (new_capability s)) q)"
    by (rule super_then_inv) (simp_all add: task_inv_def)
  show "host_part (snd (super_then p f g s)) = host_part s"
    using super_then_inv [of host_part p f g s] by simp
  show "bridge (tasks (snd (super_then p f g s)) q) = bridge (tasks (snd (new_capability s)) q)"
    by (rule super_then_inv) simp_all
qed

lemma then_m_unfold:
  "then_m p f g s = (next_id s, reassignProps (next_id s) p (snd (super_then p f g s)))"
  by (simp add: then_m_def case_prod_beta)

lemma then_m_simps [simp]:
  "fst (then_m p f g s) = next_id s"
  "next_id (snd (then_m p f g s)) = Suc (next_id s)"
  "host_part (snd (then_m p f g s)) = host_part s"
  "cfg_rejectOnAbort (tasks (snd (then_m p f g s)) q) =
     (if q = next_id s then True else cfg_rejectOnAbort (tasks s q))"
  "q \<noteq> next_id s \<Longrightarrow> abort_ref (tasks (snd (then_m p f g s)) q) = abort_ref (tasks s q)"
  "q \<noteq> next_id s \<Longrightarrow> reject_ref (tasks (snd (then_m p f g s)) q) = reject_ref (tasks s q)"
  "p \<noteq> next_id s \<Longrightarrow> abort_ref (tasks (snd (then_m p f g s)) (next_id s)) = abort_ref (tasks s p)"
  "p \<noteq> next_id s \<Longrightarrow> reject_ref (tasks (snd (then_m p f g s)) (next_id s)) = reject_ref (tasks s p)"
  by (simp_all add: then_m_unfold)

lemma then_m_task_inv:
  "task_inv (tasks s q) \<Longrightarrow> task_inv (tasks (snd (then_m p f g s)) q)"
  by (cases "q = next_id s") (simp_all add: then_m_unfold)

lemma then_m_store_inv: "store_inv s \<Longrightarrow> store_inv (snd (then_m p f g s))"
  by (auto simp: store_inv_def then_m_task_inv less_Suc_eq split: if_splits)

lemma catch_m_store_inv: "store_inv s \<Longrightarrow> store_inv (snd (catch_m p g s))"
  by (simp add: catch_m_def then_m_store_inv)

lemma super_finally_fst [simp]: "fst (super_finally p f s) = next_id s"
  by (simp add: super_finally_def split: option.splits)

lemma super_finally_store_inv: "store_inv s \<Longrightarrow> store_inv (snd (super_finally p f s))"
  by (simp add: super_finally_def then_m_store_inv split: option.splits)

lemma super_finally_simps [simp]:
  "next_id (snd (super_finally p f s)) = Suc (next_id s)"
  "cfg_rejectOnAbort (tasks (snd (super_finally p f s)) q) =
     (if q = next_id s then True else cfg_rejectOnAbort (tasks s q))"
  "q \<noteq> next_id s \<Longrightarrow> abort_ref (tasks (snd (super_finally p f s)) q) = abort_ref (tasks s q)"
  "q \<noteq> next_id s \<Longrightarrow> reject_ref (tasks (snd (super_finally p f s)) q) = reject_ref (tasks s q)"
  "p \<noteq> next_id s \<Longrightarrow> abort_ref (tasks (snd (super_finally p f s)) (next_id s)) = abort_ref (tasks s p)"
  "p \<noteq> next_id s \<Longrightarrow> reject_ref (tasks (snd (super_finally p f s)) (next_id s)) = reject_ref (tasks s p)"
  by (simp_all add: super_finally_def split: option.splits)

lemma finally_m_unfold:
  "finally_m p f s = (next_id s, reassignProps (next_id s) p (snd (super_finally p f s)))"
  by (simp add: finally_m_def case_prod_beta)

lemma finally_m_store_inv: "store_inv s \<Longrightarrow> store_inv (snd (finally_m p f s))"
proof -
  assume "store_inv s"
  then have "store_inv (snd (super_finally p f s))" by (rule super_finally_store_inv)
  then show ?thesis
    by (auto simp: finally_m_unfold store_inv_def split: if_splits)
qed

lemma finally_m_simps [simp]:
  "fst (finally_m p f s) = next_id s"
  "next_id (snd (finally_m p f s)) = Suc (next_id s)"
  "cfg_rejectOnAbort (tasks (snd (finally_m p f s)) q) =
     (if q = next_id s then True else cfg_rejectOnAbort (tasks s q))"
  "q \<noteq> next_id s \<Longrightarrow> abort_ref (tasks (snd (finally_m p f s)) q) = abort_ref (tasks s q)"
  "q \<noteq> next_id s \<Longrightarrow> reject_ref (tasks (snd (finally_m p f s)) q) = reject_ref (tasks s q)"
  "p \<noteq> next_id s \<Longrightarrow> abort_ref (tasks (snd (finally_m p f s)) (next_id s)) = abort_ref (tasks s p)"
  "p \<noteq> next_id s \<Longrightarrow> reject_ref (tasks (snd (finally_m p f s)) (next_id s)) = reject_ref (tasks s p)"
  by (simp_all add: finally_m_unfold)

lemma catch_m_simps [simp]:
  "fst (catch_m p g s) = next_id s"
  "next_id (snd (catch_m p g s)) = Suc (next_id s)"
  "cfg_rejectOnAbort (tasks (snd (catch_m p g s)) q) =
     (if q = next_id s then True else cfg_rejectOnAbort (tasks s q))"
  "q \<noteq> next_id s \<Longrightarrow> abort_ref (tasks (snd (catch_m p g s)) q) = abort_ref (tasks s q)"
  "q \<noteq> next_id s \<Longrightarrow> reject_ref (tasks (snd (catch_m p g s)) q) = reject_ref (tasks s q)"
  "p \<noteq> next_id s \<Longrightarrow> abort_ref (tasks (snd (catch_m p g s)) (next_id s)) = abort_ref (tasks s p)"
  "p \<noteq> next_id s \<Longrightarrow> reject_ref (tasks (snd (catch_m p g s)) (next_id s)) = reject_ref (tasks s p)"
  by (simp_all add: catch_m_def)

lemma executor_body_host [simp]:
  "natives (snd (snd (executor_body ex opts s))) = natives s"
  "next_native (snd (snd (executor_body ex opts s))) = next_native s"
  using executor_body_fields(2) [of ex opts s] by (simp_all add: host_part_def)

lemma then_m_host [simp]:
  "natives (snd (then_m p f g s)) = natives s"
  "next_native (snd (then_m p f g s)) = next_native s"
  using then_m_simps(3) [of p f g s] by (simp_all add: host_part_def)

lemma same_closures_refl [simp]: "same_closures t t"
  by (simp add: same_closures_def)

lemma same_closures_trans:
  "same_closures t t' \<Longrightarrow> same_closures t' t'' \<Longrightarrow> same_closures t t''"
  by (simp add: same_closures_def)

lemma same_closures_eq: "t' = t \<Longrightarrow> same_closures t t'"
  by simp

lemma same_closures_task_inv: "same_closures t t' \<Longrightarrow> task_inv t' = task_inv t"
  by (rule task_inv_cong) (simp_all add: same_closures_def)

lemma then_m_same:
  "q \<noteq> next_id s \<Longrightarrow> same_closures (tasks s q) (tasks (snd (then_m p f g s)) q)"
  by (simp add: same_closures_def then_m_unfold)

lemma assign_props_same:
  "q \<noteq> p \<Longrightarrow> same_closures (tasks s q) (tasks (assign_props p s) q)"
  by (simp add: same_closures_def)

lemma construct_fst [simp]: "fst (construct a m s) = next_id s"
  by (simp add: construct.simps [of a m s] Let_def case_prod_beta)

lemma construct_unfold:
  "construct a m s =
     (next_id s,
      assign_props (next_id s)
        (case fst (snd (executor_body (executor_arg a) (options_or_empty a m) s)) of
           RetUndefined \<Rightarrow> snd (snd (executor_body (executor_arg a) (options_or_empty a m) s))
         | RetTask q \<Rightarrow>
             snd (catch_m q (Some (HReject (next_id s)))
               (snd (snd (executor_body (executor_arg a) (options_or_empty a m) s))))
         | RetNative n \<Rightarrow>
             snd (native_then n None (Some (HReject (next_id s)))
               (snd (snd (executor_body (executor_arg a) (options_or_empty a m) s))))
         | RetFresh st \<Rightarrow>
             snd (native_then (next_native s) None (Some (HReject (next_id s)))
               (snd (new_native st
                 (snd (snd (executor_body (executor_arg a) (options_or_empty a m) s))))))
         | RetNew a' m' \<Rightarrow>
             snd (catch_m (Suc (next_id s)) (Some (HReject (next_id s)))
               (snd (construct a' m'
                 (snd (snd (executor_body (executor_arg a) (options_or_empty a m) s))))))))"
  by (cases "executor_body (executor_arg a) (options_or_empty a m) s")
     (use executor_body_fst [of "executor_arg a" "options_or_empty a m" s]
        executor_body_host(2) [of "executor_arg a" "options_or_empty a m" s]
        executor_body_fields(1) [of "executor_arg a" "options_or_empty a m" s] in
       \<open>auto simp: construct.simps [of a m s] Let_def case_prod_beta split: xret.splits\<close>)

lemma construct_induct [case_names step]:
  assumes "\<And>a m s.
     (\<And>a' m'. fst (snd (executor_body (executor_arg a) (options_or_empty a m) s)) = RetNew a' m'
        \<Longrightarrow> P a' m' (snd (snd (executor_body (executor_arg a) (options_or_empty a m) s))))
     \<Longrightarrow> P a m s"
  shows "P a m s"
proof (induction a m s rule: construct.induct)
  case (1 a m s)
  show ?case
  proof (rule assms)
    fix a' m'
    assume r: "fst (snd (executor_body (executor_arg a) (options_or_empty a m) s)) = RetNew a' m'"
    show "P a' m' (snd (snd (executor_body (executor_arg a) (options_or_empty a m) s)))"
      by (rule "1.IH" [OF refl refl refl prod.collapse prod.collapse r])
  qed
qed

text \<open>
  The constructor leaves the tasks that exist when it is called as they are, but for the
  reactions that line 207 registers; the numbers it gives out are new.
\<close>

lemma construct_existing_same:
  "next_id s < next_id (snd (construct a m s)) \<and>
   (\<forall>q. q < next_id s \<longrightarrow> same_closures (tasks s q) (tasks (snd (construct a m s)) q))"
proof (induction a m s rule: construct_induct)
  case (step a m s)
  let ?B = "snd (snd (executor_body (executor_arg a) (options_or_empty a m) s))"
  have B: "next_id ?B = Suc (next_id s)" "\<And>q. q < next_id s \<Longrightarrow> tasks ?B q = tasks s q"
    by simp_all
  show ?case
  proof (cases "fst (snd (executor_body (executor_arg a) (options_or_empty a m) s))")
    case RetUndefined
    then show ?thesis
      by (simp add: construct_unfold same_closures_def)
  next
    case (RetTask q0)
    then show ?thesis
      by (simp add: construct_unfold same_closures_def catch_m_def then_m_unfold)
  next
    case (RetNative n)
    then show ?thesis
      by (simp add: construct_unfold same_closures_def)
  next
    case (RetFresh st)
    then show ?thesis
      by (simp add: construct_unfold same_closures_def)
  next
    case (RetNew a' m')
    let ?s' = "snd (construct a' m' ?B)"
    note ih = step [OF RetNew]
    have lt: "Suc (next_id s) < next_id ?s'"
      using ih B(1) by simp
    have ih2: "x < next_id s \<Longrightarrow> same_closures (tasks ?B x) (tasks ?s' x)" for x
      using ih B(1) by (auto simp: less_Suc_eq)
    have fin: "snd (construct a m s) =
        assign_props (next_id s)
          (snd (catch_m (Suc (next_id s)) (Some (HReject (next_id s))) ?s'))"
      using RetNew by (simp add: construct_unfold)
    have "same_closures (tasks s q) (tasks (snd (construct a m s)) q)" if q: "q < next_id s" for q
    proof -
      have 1: "same_closures (tasks s q) (tasks ?s' q)"
        using ih2 [OF q] B(2) [OF q] by simp
      have 2: "same_closures (tasks ?s' q)
          (tasks (snd (catch_m (Suc (next_id s)) (Some (HReject (next_id s))) ?s')) q)"
        using q lt by (simp add: catch_m_def then_m_same)
      have 3: "same_closures
          (tasks (snd (catch_m (Suc (next_id s)) (Some (HReject (next_id s))) ?s')) q)
          (tasks (snd (construct a m s)) q)"
        using q by (simp add: fin assign_props_same)
      from same_closures_trans [OF same_closures_trans [OF 1 2] 3] show ?thesis .
    qed
    moreover have "next_id s < next_id (snd (construct a m s))"
      using lt by (simp add: fin catch_m_def)
    ultimately show ?thesis by simp
  qed
qed

lemma construct_next_id: "next_id s < next_id (snd (construct a m s))"
  using construct_existing_same [of s a m] by simp

lemma construct_same:
  "q < next_id s \<Longrightarrow> same_closures (tasks s q) (tasks (snd (construct a m s)) q)"
  using construct_existing_same [of s a m] by simp

lemma construct_existing [simp]:
  "q < next_id s \<Longrightarrow>
     cfg_rejectOnAbort (tasks (snd (construct a m s)) q) = cfg_rejectOnAbort (tasks s q)"
  "q < next_id s \<Longrightarrow> abort_ref (tasks (snd (construct a m s)) q) = abort_ref (tasks s q)"
  "q < next_id s \<Longrightarrow> reject_ref (tasks (snd (construct a m s)) q) = reject_ref (tasks s q)"
  "q < next_id s \<Longrightarrow> timer (tasks (snd (construct a m s)) q) = timer (tasks s q)"
  "q < next_id s \<Longrightarrow> cleanupFns (tasks (snd (construct a m s)) q) = cleanupFns (tasks s q)"
  "q < next_id s \<Longrightarrow> task_inv (tasks (snd (construct a m s)) q) = task_inv (tasks s q)"
  using construct_same [of q s a m]
  by (simp_all add: same_closures_task_inv) (simp_all add: same_closures_def)

text \<open>
  The task that the constructor makes, when the constructor returns: it is in the state in
  which the executor of line 82 left it, but for its two properties and the reactions on
  it.
\<close>

lemma construct_made:
  "same_closures
     ((tasks (snd (snd (executor_body (executor_arg a) (options_or_empty a m) s))) (next_id s))
        \<lparr>abort_ref := next_id s, reject_ref := next_id s\<rparr>)
     (tasks (snd (construct a m s)) (next_id s))"
proof -
  let ?B = "snd (snd (executor_body (executor_arg a) (options_or_empty a m) s))"
  let ?p = "next_id s"
  have B: "next_id ?B = Suc ?p"
    by simp
  have *: "same_closures (tasks ?B ?p) (tasks x ?p) \<Longrightarrow>
      same_closures ((tasks ?B ?p)\<lparr>abort_ref := ?p, reject_ref := ?p\<rparr>)
        (tasks (assign_props ?p x) ?p)" for x
    by (simp add: same_closures_def)
  show ?thesis
  proof (cases "fst (snd (executor_body (executor_arg a) (options_or_empty a m) s))")
    case RetUndefined
    then show ?thesis by (simp add: construct_unfold *)
  next
    case (RetTask q0)
    have "same_closures (tasks ?B ?p) (tasks (snd (catch_m q0 (Some (HReject ?p)) ?B)) ?p)"
      by (simp add: catch_m_def then_m_same)
    then show ?thesis using RetTask by (simp add: construct_unfold *)
  next
    case (RetNative n)
    then show ?thesis by (simp add: construct_unfold *)
  next
    case (RetFresh st)
    then show ?thesis by (simp add: construct_unfold *)
  next
    case (RetNew a' m')
    let ?s' = "snd (construct a' m' ?B)"
    have 1: "same_closures (tasks ?B ?p) (tasks ?s' ?p)"
      by (rule construct_same) simp
    have "?p < next_id ?s'"
      using construct_next_id [of ?B a' m'] by simp
    then have 2: "same_closures (tasks ?s' ?p)
        (tasks (snd (catch_m (Suc ?p) (Some (HReject ?p)) ?s')) ?p)"
      by (simp add: catch_m_def then_m_same)
    from same_closures_trans [OF 1 2] RetNew show ?thesis
      by (simp add: construct_unfold *)
  qed
qed

lemma construct_new [simp]:
  "cfg_rejectOnAbort (tasks (snd (construct a m s)) (next_id s)) = roa_of (options_or_empty a m)"
  "abort_ref (tasks (snd (construct a m s)) (next_id s)) = next_id s"
  "reject_ref (tasks (snd (construct a m s)) (next_id s)) = next_id s"
  using construct_made [where a = a and m = m and s = s] by (simp_all add: same_closures_def)

lemma construct_timer_fields:
  "timer (tasks (snd (construct a m s)) (next_id s))
     = timer (tasks (snd (snd (executor_body (executor_arg a) (options_or_empty a m) s)))
         (next_id s))"
  "cleanupFns (tasks (snd (construct a m s)) (next_id s))
     = cleanupFns (tasks (snd (snd (executor_body (executor_arg a) (options_or_empty a m) s)))
         (next_id s))"
  using construct_made [where a = a and m = m and s = s] by (simp_all add: same_closures_def)

lemma construct_task_inv: "task_inv (tasks (snd (construct a m s)) (next_id s))"
proof -
  let ?B = "snd (snd (executor_body (executor_arg a) (options_or_empty a m) s))"
  have "task_inv ((tasks ?B (next_id s))\<lparr>abort_ref := next_id s, reject_ref := next_id s\<rparr>)
          = task_inv (tasks ?B (next_id s))"
    by (rule task_inv_cong) simp_all
  then show ?thesis
    using same_closures_task_inv [OF construct_made [where a = a and m = m and s = s]]
    by (simp add: executor_body_task_inv)
qed

lemma construct_all_task_inv:
  "(\<forall>q. task_inv (tasks s q)) \<longrightarrow>
     (\<forall>q. task_inv (tasks (snd (construct a m s)) q)) \<and>
     (\<forall>q. next_id s \<le> q \<and> q < next_id (snd (construct a m s))
            \<and> \<not> cfg_rejectOnAbort (tasks (snd (construct a m s)) q)
          \<longrightarrow> abort_ref (tasks (snd (construct a m s)) q) = q)"
proof (induction a m s rule: construct_induct)
  case (step a m s)
  let ?B = "snd (snd (executor_body (executor_arg a) (options_or_empty a m) s))"
  let ?p = "next_id s"
  let ?h = "Some (HReject ?p)"
  show ?case
  proof (intro impI)
    assume inv: "\<forall>q. task_inv (tasks s q)"
    have invB: "\<forall>q. task_inv (tasks ?B q)"
    proof
      fix q
      show "task_inv (tasks ?B q)"
        using inv by (cases "q = ?p") (simp_all add: executor_body_task_inv)
    qed
    have B: "next_id ?B = Suc ?p"
      by simp
    show "(\<forall>q. task_inv (tasks (snd (construct a m s)) q)) \<and>
     (\<forall>q. ?p \<le> q \<and> q < next_id (snd (construct a m s))
            \<and> \<not> cfg_rejectOnAbort (tasks (snd (construct a m s)) q)
          \<longrightarrow> abort_ref (tasks (snd (construct a m s)) q) = q)"
    proof (cases "fst (snd (executor_body (executor_arg a) (options_or_empty a m) s))")
      case RetUndefined
      then show ?thesis
        using invB by (auto simp: construct_unfold less_Suc_eq)
    next
      case (RetTask q0)
      have "\<forall>q. task_inv (tasks (snd (catch_m q0 ?h ?B)) q)"
        using invB by (simp add: catch_m_def then_m_task_inv)
      then show ?thesis
        using RetTask by (auto simp: construct_unfold less_Suc_eq catch_m_def)
    next
      case (RetNative n)
      then show ?thesis
        using invB by (auto simp: construct_unfold less_Suc_eq)
    next
      case (RetFresh st)
      then show ?thesis
        using invB by (auto simp: construct_unfold less_Suc_eq)
    next
      case (RetNew a' m')
      let ?s' = "snd (construct a' m' ?B)"
      let ?s2 = "snd (catch_m (Suc ?p) ?h ?s')"
      note ih = step [OF RetNew, THEN mp, OF invB]
      have fin: "snd (construct a m s) = assign_props ?p ?s2"
        using RetNew by (simp add: construct_unfold)
      have lt: "Suc ?p < next_id ?s'"
        using construct_next_id [of ?B a' m'] by simp
      have t: "\<forall>q. task_inv (tasks ?s2 q)"
        using ih by (simp add: catch_m_def then_m_task_inv)
      have r: "abort_ref (tasks (assign_props ?p ?s2) q) = q"
        if q: "?p \<le> q" "q < next_id (assign_props ?p ?s2)"
          "\<not> cfg_rejectOnAbort (tasks (assign_props ?p ?s2) q)" for q
      proof (cases "q = ?p")
        case True
        then show ?thesis by simp
      next
        case False
        then have ge: "next_id ?B \<le> q"
          using q(1) by simp
        have ne: "q \<noteq> next_id ?s'"
          using q(3) by (auto simp: catch_m_def)
        then have "q < next_id ?s'"
          using q(2) by simp
        moreover have "\<not> cfg_rejectOnAbort (tasks ?s' q)"
          using q(3) ne by (simp add: catch_m_def)
        ultimately have "abort_ref (tasks ?s' q) = q"
          using ih ge by simp
        then show ?thesis
          using False ne by (simp add: catch_m_def)
      qed
      show ?thesis
        using t r by (simp add: fin)
    qed
  qed
qed

lemma construct_store_inv: "store_inv s \<Longrightarrow> store_inv (snd (construct a m s))"
proof -
  assume a: "store_inv s"
  then have inv: "\<forall>q. task_inv (tasks s q)"
    by (simp add: store_inv_def)
  note w = construct_all_task_inv [of s a m, THEN mp, OF inv]
  have "abort_ref (tasks (snd (construct a m s)) q) = q"
    if q: "q < next_id (snd (construct a m s))"
      "\<not> cfg_rejectOnAbort (tasks (snd (construct a m s)) q)" for q
  proof (cases "q < next_id s")
    case True
    then show ?thesis
      using a q(2) by (simp add: store_inv_def)
  next
    case False
    then show ?thesis
      using w q by simp
  qed
  then show ?thesis
    using w by (simp add: store_inv_def)
qed

lemma perform_store_inv: "store_inv s \<Longrightarrow> allowed a \<Longrightarrow> store_inv (perform a s)"
proof (cases a)
  case (New a m)
  assume "store_inv s"
  then show ?thesis using New by (simp add: construct_store_inv)
next
  case (Abort p r)
  assume "store_inv s"
  then show ?thesis using Abort
    by (simp add: abort_m_def) (erule store_inv_local; simp add: abort_task_inv)
next
  case (Reject p r)
  assume "store_inv s"
  then show ?thesis using Reject
    by (simp add: reject_m_def) (erule store_inv_local; simp add: reject_task_inv)
next
  case (Cancel p)
  assume "store_inv s"
  then show ?thesis using Cancel
    by (simp add: cancel_def abort_m_def) (erule store_inv_local; simp add: abort_task_inv)
next
  case (Then p f g)
  assume "store_inv s"
  then show ?thesis using Then by (simp add: then_m_store_inv)
next
  case (Catch p g)
  assume "store_inv s"
  then show ?thesis using Catch by (simp add: catch_m_store_inv)
next
  case (Finally p f)
  assume "store_inv s"
  then show ?thesis using Finally by (simp add: finally_m_store_inv)
next
  case (Ctx p x)
  assume "store_inv s"
  then show ?thesis using Ctx
    by simp (erule store_inv_local; simp add: run_op_task_inv)
next
  case (Unsubscribe p k l)
  assume "store_inv s" and "allowed a"
  then show ?thesis using Unsubscribe
    by (simp del: run_cleanup.simps)
       (erule store_inv_local; simp add: unsubscribe_task_inv del: run_cleanup.simps)
next
  case (TimerFires p)
  assume "store_inv s"
  then show ?thesis using TimerFires
    by simp (erule store_inv_local; simp add: timer_fires_task_inv)
next
  case (ExternalAbort p r)
  assume "store_inv s"
  then show ?thesis using ExternalAbort
    by simp (erule store_inv_local; simp add: external_abort_task_inv)
next
  case Microtask
  assume "store_inv s"
  then show ?thesis using Microtask
    by simp (erule store_inv_local; simp add: run_microtask_task_inv)
next
  case (NewNative st)
  assume "store_inv s"
  then show ?thesis using NewNative
    by simp (erule store_inv_local; simp)
next
  case (SettleNative n out)
  assume "store_inv s"
  then show ?thesis using SettleNative
    by (cases out; simp) (erule store_inv_local; simp)+
next
  case (ThenNative n f g)
  assume "store_inv s"
  then show ?thesis using ThenNative
    by simp (erule store_inv_local; simp)
qed

lemma empty_store_inv: "store_inv empty_store"
  by (simp add: store_inv_def task_inv_def empty_store_def blank_task_def)

lemma run_store_inv: "store_inv s \<Longrightarrow> history as \<Longrightarrow> store_inv (run as s)"
  by (induction as arbitrary: s) (simp_all add: history_def perform_store_inv)

lemma history_store_inv: "history as \<Longrightarrow> store_inv (run as empty_store)"
  by (rule run_store_inv [OF empty_store_inv])

lemmas model_defs = construct.simps executor_arg_def options_arg_def options_or_empty_def
  executor_body_def roa_of_def alloc_def process_abortSignal_def
  process_rejectOnAbort_def process_timeout_def call_executor_def assign_props_def
  no_options_def empty_store_def blank_task_def onAborted_def Let_def
  reject_m_def abort_m_def reject_def resolve_def withCleanup_def run_cleanups_def
  abort_def controller_abort_def dispatch_def res_def rej_def settle_def upd_task_def
  add_log_def abort_value_def new_native_def native_then_def native_settle_def native_res_def
  native_rej_def upd_native_def blank_native_def

section \<open>Settlement callbacks and cleanup\<close>

text \<open>
  C4. The callbacks \<^verbatim>\<open>resolve\<close> and \<^verbatim>\<open>reject\<close> handed to the work function first call
  the promise's underlying \<^verbatim>\<open>res\<close> or \<^verbatim>\<open>rej\<close>, then call \<^verbatim>\<open>abort\<close>, with the tagged
  value for a fulfilment and with the reason itself for a rejection, and then call every
  function of \<^verbatim>\<open>cleanupFns\<close> once, in order. The trace of one call is exactly that; the
  listeners of the signal are called in between when the call of \<^verbatim>\<open>abort\<close> is the one that
  aborts the signal. The settlement takes effect on a pending task, the abort on a signal
  that has not aborted.
\<close>

theorem wrapped_callbacks_settle_abort_cleanup:
  "log (resolve p v s) =
     log s @ [EvRes p v, EvAbort p (withResolved v)] @
       (if isAborted p s then []
        else dispatch_events p (withResolved v) (listeners (tasks s p))) @
       map (EvCleanup p) (cleanupFns (tasks s p))
   \<and> log (reject p r s) =
     log s @ [EvRej p r, EvAbort p r] @
       (if isAborted p s then []
        else dispatch_events p (abort_value r) (listeners (tasks s p))) @
       map (EvCleanup p) (cleanupFns (tasks s p))
   \<and> count_list (log (resolve p v s)) (EvCleanup p c) =
       count_list (log s) (EvCleanup p c) + count_list (cleanupFns (tasks s p)) c
   \<and> count_list (log (reject p r s)) (EvCleanup p c) =
       count_list (log s) (EvCleanup p c) + count_list (cleanupFns (tasks s p)) c
   \<and> settlement (tasks (resolve p v s) p) =
       (if settlement (tasks s p) = Pending then Fulfilled v else settlement (tasks s p))
   \<and> settlement (tasks (reject p r s) p) =
       (if settlement (tasks s p) = Pending then Rejected r else settlement (tasks s p))
   \<and> abortReason p (resolve p v s) =
       (if isAborted p s then abortReason p s else Some (withResolved v))
   \<and> abortReason p (reject p r s) =
       (if isAborted p s then abortReason p s else Some (abort_value r))"
proof (intro conjI)
  show "log (resolve p v s) =
     log s @ [EvRes p v, EvAbort p (withResolved v)] @
       (if isAborted p s then []
        else dispatch_events p (withResolved v) (listeners (tasks s p))) @
       map (EvCleanup p) (cleanupFns (tasks s p))"
    by (simp add: resolve_log isAborted_def)
  show "log (reject p r s) =
     log s @ [EvRej p r, EvAbort p r] @
       (if isAborted p s then []
        else dispatch_events p (abort_value r) (listeners (tasks s p))) @
       map (EvCleanup p) (cleanupFns (tasks s p))"
    by (simp add: reject_log isAborted_def)
  show "count_list (log (resolve p v s)) (EvCleanup p c) =
       count_list (log s) (EvCleanup p c) + count_list (cleanupFns (tasks s p)) c"
    by (rule count_cleanup_resolve)
  show "count_list (log (reject p r s)) (EvCleanup p c) =
       count_list (log s) (EvCleanup p c) + count_list (cleanupFns (tasks s p)) c"
    by (rule count_cleanup_reject)
  show "settlement (tasks (resolve p v s) p) =
       (if settlement (tasks s p) = Pending then Fulfilled v else settlement (tasks s p))"
    by (simp add: resolve_settlement)
  show "settlement (tasks (reject p r s) p) =
       (if settlement (tasks s p) = Pending then Rejected r else settlement (tasks s p))"
    by (simp add: reject_settlement)
  show "abortReason p (resolve p v s) =
       (if isAborted p s then abortReason p s else Some (withResolved v))"
    by (simp add: resolve_sig_reason isAborted_def abortReason_def withResolved_def)
  show "abortReason p (reject p r s) =
       (if isAborted p s then abortReason p s else Some (abort_value r))"
    by (simp add: reject_sig_reason isAborted_def abortReason_def)
qed

text \<open>
  C3, as the spec states it: over the life of a task every registered cleanup action runs
  exactly once, and the list is cleared afterwards. It fails on a task built with a
  timeout of 50 and no work function, \<^verbatim>\<open>new AbortablePromise({timeout: 50})\<close>. Two
  calls of its \<^verbatim>\<open>reject\<close> run the timer's cleanup twice and leave the list as it was;
  a call of its \<^verbatim>\<open>abort\<close> rejects the task, runs no cleanup and leaves the timer
  scheduled.
\<close>

theorem cleanup_exactly_once_counterexample:
  "count_list (log (reject_m 0 (VStr ''a'') (reject_m 0 (VStr ''a'')
      (snd (construct (Object (no_options\<lparr>timeout := Some (Num 50)\<rparr>)) None empty_store)))))
     (EvCleanup 0 ClearTimeout) = 2
   \<and> cleanupFns (tasks (reject_m 0 (VStr ''a'')
      (snd (construct (Object (no_options\<lparr>timeout := Some (Num 50)\<rparr>)) None empty_store))) 0)
     = [RemoveListener 0 RejL, ClearTimeout]
   \<and> settlement (tasks (abort_m 0 (VStr ''x'')
      (snd (construct (Object (no_options\<lparr>timeout := Some (Num 50)\<rparr>)) None empty_store))) 0)
     = Rejected (VStr ''x'')
   \<and> count_list (log (abort_m 0 (VStr ''x'')
      (snd (construct (Object (no_options\<lparr>timeout := Some (Num 50)\<rparr>)) None empty_store))))
     (EvCleanup 0 ClearTimeout) = 0
   \<and> timer (tasks (abort_m 0 (VStr ''x'')
      (snd (construct (Object (no_options\<lparr>timeout := Some (Num 50)\<rparr>)) None empty_store))) 0)
     = Scheduled (Num 50)"
  by (simp add: model_defs)

text \<open>
  C3, amended: every call of the wrapped \<^verbatim>\<open>resolve\<close> or \<^verbatim>\<open>reject\<close> runs each
  registered cleanup action once, in the order of registration, after the underlying
  settlement and the abort of that call, and leaves the list unchanged; so \<open>n\<close> calls of
  \<^verbatim>\<open>reject\<close> run each action \<open>n\<close> times.
\<close>

theorem cleanup_runs_on_every_wrapped_call:
  "log (resolve p v s) =
     log s @ [EvRes p v, EvAbort p (withResolved v)] @
       (if isAborted p s then []
        else dispatch_events p (withResolved v) (listeners (tasks s p))) @
       map (EvCleanup p) (cleanupFns (tasks s p))
   \<and> log (reject p r s) =
     log s @ [EvRej p r, EvAbort p r] @
       (if isAborted p s then []
        else dispatch_events p (abort_value r) (listeners (tasks s p))) @
       map (EvCleanup p) (cleanupFns (tasks s p))
   \<and> EvCleanup p c \<notin> set (dispatch_events p x (listeners (tasks s p)))
   \<and> cleanupFns (tasks (resolve p v s) p) = cleanupFns (tasks s p)
   \<and> cleanupFns (tasks (reject p r s) p) = cleanupFns (tasks s p)
   \<and> count_list (log ((reject p r ^^ n) s)) (EvCleanup p c) =
       count_list (log s) (EvCleanup p c) + n * count_list (cleanupFns (tasks s p)) c"
proof (intro conjI)
  show "log (resolve p v s) =
     log s @ [EvRes p v, EvAbort p (withResolved v)] @
       (if isAborted p s then []
        else dispatch_events p (withResolved v) (listeners (tasks s p))) @
       map (EvCleanup p) (cleanupFns (tasks s p))"
    by (simp add: resolve_log isAborted_def)
  show "log (reject p r s) =
     log s @ [EvRej p r, EvAbort p r] @
       (if isAborted p s then []
        else dispatch_events p (abort_value r) (listeners (tasks s p))) @
       map (EvCleanup p) (cleanupFns (tasks s p))"
    by (simp add: reject_log isAborted_def)
  show "EvCleanup p c \<notin> set (dispatch_events p x (listeners (tasks s p)))"
    by (rule dispatch_events_no_cleanup)
  show "cleanupFns (tasks (resolve p v s) p) = cleanupFns (tasks s p)"
    by simp
  show "cleanupFns (tasks (reject p r s) p) = cleanupFns (tasks s p)"
    by simp
  show "count_list (log ((reject p r ^^ n) s)) (EvCleanup p c) =
       count_list (log s) (EvCleanup p c) + n * count_list (cleanupFns (tasks s p)) c"
    by (rule count_cleanup_reject_funpow)
qed

section \<open>Tasks along a history\<close>

lemma perform_existing:
  assumes "q < next_id s"
  shows "q < next_id (perform a s) \<and>
     cfg_rejectOnAbort (tasks (perform a s) q) = cfg_rejectOnAbort (tasks s q) \<and>
     abort_ref (tasks (perform a s) q) = abort_ref (tasks s q) \<and>
     reject_ref (tasks (perform a s) q) = reject_ref (tasks s q)"
proof (cases a)
  case (New x m)
  then show ?thesis
    using assms construct_next_id [of s x m] by simp
next
  case (SettleNative n out)
  then show ?thesis
    using assms by (cases out) simp_all
qed (use assms in \<open>simp_all add: abort_m_def reject_m_def cancel_def\<close>)

lemma run_existing:
  assumes "q < next_id s"
  shows "q < next_id (run as s) \<and>
     cfg_rejectOnAbort (tasks (run as s) q) = cfg_rejectOnAbort (tasks s q) \<and>
     abort_ref (tasks (run as s) q) = abort_ref (tasks s q) \<and>
     reject_ref (tasks (run as s) q) = reject_ref (tasks s q)"
  using assms
proof (induction as arbitrary: s)
  case Nil
  then show ?case by simp
next
  case (Cons a as)
  have "q < next_id (perform a s)"
    using perform_existing [OF Cons.prems, of a] by simp
  from Cons.IH [OF this] perform_existing [OF Cons.prems, of a]
  show ?case by simp
qed

lemma run_append: "run (as @ bs) s = run bs (run as s)"
  by (induction as arbitrary: s) simp_all

lemma history_append: "history (as @ bs) = (history as \<and> history bs)"
  by (simp add: history_def)

lemma timer_fires_unfold:
  "timer (tasks s p) = Scheduled t \<Longrightarrow>
     timer_fires p s = abort p (VTimeoutError t) (upd_task p (\<lambda>x. x\<lparr>timer := Fired\<rparr>) s)"
  by (simp add: timer_fires_def)

lemma external_abort_unfold:
  "ext_signal (tasks s p) = Some None \<Longrightarrow> bridge (tasks s p) \<Longrightarrow>
     external_abort p r s =
       abort p (abort_value r)
         (upd_task p (\<lambda>t. t\<lparr>ext_signal := Some (Some (abort_value r))\<rparr>) s)"
  by (simp add: external_abort_def Let_def)

lemma timer_fires_settlement_aborted:
  "sig_reason (tasks s p) \<noteq> None \<Longrightarrow>
     settlement (tasks (timer_fires p s) q) = settlement (tasks s q)"
  by (auto simp: timer_fires_def abort_settlement split: timer.splits)

lemma external_abort_settlement_aborted:
  "sig_reason (tasks s p) \<noteq> None \<Longrightarrow>
     settlement (tasks (external_abort p r s) q) = settlement (tasks s q)"
  by (auto simp: external_abort_def Let_def abort_settlement split: option.splits)

section \<open>Abort and rejection\<close>

text \<open>
  C2. In every store a history leads to, for a task whose \<^verbatim>\<open>rejectOnAbort\<close> is true
  (the default): a call of the task's \<^verbatim>\<open>abort\<close> closure, the expiry of its timer and
  the abort of its external signal each abort a signal that has not aborted yet, and the
  task is then rejected with the abort reason, which is also what \<^verbatim>\<open>abortReason()\<close>
  returns. The instance methods \<^verbatim>\<open>abort\<close> and \<^verbatim>\<open>cancel\<close> call that closure. A
  fulfilled task has an aborted signal, and on an aborted signal none of the three changes
  the settlement.
\<close>

theorem abort_rejects_when_rejectOnAbort:
  assumes "history as" and "s = run as empty_store" and "cfg_rejectOnAbort (tasks s p)"
  shows "(\<not> isAborted p s \<longrightarrow>
            settlement (tasks (abort p r s) p) = Rejected (abort_value r) \<and>
            abortReason p (abort p r s) = Some (abort_value r))
       \<and> (\<not> isAborted p s \<and> timer (tasks s p) = Scheduled t \<longrightarrow>
            settlement (tasks (timer_fires p s) p) = Rejected (VTimeoutError t) \<and>
            abortReason p (timer_fires p s) = Some (VTimeoutError t))
       \<and> (\<not> isAborted p s \<and> ext_signal (tasks s p) = Some None \<longrightarrow>
            settlement (tasks (external_abort p r s) p) = Rejected (abort_value r) \<and>
            abortReason p (external_abort p r s) = Some (abort_value r))
       \<and> (abort_ref (tasks s q) = p \<longrightarrow>
            abort_m q r s = abort p r s \<and> cancel q s = abort p VCancelledError s)
       \<and> (settlement (tasks s p) = Fulfilled v \<longrightarrow> isAborted p s)
       \<and> (isAborted p s \<longrightarrow>
            settlement (tasks (abort p r s) p) = settlement (tasks s p) \<and>
            settlement (tasks (timer_fires p s) p) = settlement (tasks s p) \<and>
            settlement (tasks (external_abort p r s) p) = settlement (tasks s p))"
proof -
  have "store_inv s"
    using assms(1,2) by (simp add: history_store_inv)
  then have inv: "task_inv (tasks s p)"
    by (simp add: store_inv_def)
  have pending: "sig_reason (tasks s p) = None \<Longrightarrow> settlement (tasks s p) = Pending"
    and rejl: "sig_reason (tasks s p) = None \<Longrightarrow> RejL \<in> snd ` set (listeners (tasks s p))"
    and br: "sig_reason (tasks s p) = None \<Longrightarrow> ext_signal (tasks s p) = Some None \<Longrightarrow>
               bridge (tasks s p)"
    using inv assms(3) by (simp_all add: task_inv_def)
  have 1: "\<not> isAborted p s \<longrightarrow>
            settlement (tasks (abort p r s) p) = Rejected (abort_value r) \<and>
            abortReason p (abort p r s) = Some (abort_value r)"
    using pending rejl
    by (simp add: isAborted_def abortReason_def abort_settlement abort_sig_reason)
  have 2: "\<not> isAborted p s \<and> timer (tasks s p) = Scheduled t \<longrightarrow>
            settlement (tasks (timer_fires p s) p) = Rejected (VTimeoutError t) \<and>
            abortReason p (timer_fires p s) = Some (VTimeoutError t)"
    using pending rejl
    by (simp add: isAborted_def abortReason_def timer_fires_unfold abort_settlement
        abort_sig_reason)
  have 3: "\<not> isAborted p s \<and> ext_signal (tasks s p) = Some None \<longrightarrow>
            settlement (tasks (external_abort p r s) p) = Rejected (abort_value r) \<and>
            abortReason p (external_abort p r s) = Some (abort_value r)"
    using pending rejl br
    by (simp add: isAborted_def abortReason_def external_abort_unfold abort_settlement
        abort_sig_reason)
  have 4: "abort_ref (tasks s q) = p \<longrightarrow>
            abort_m q r s = abort p r s \<and> cancel q s = abort p VCancelledError s"
    by (simp add: abort_m_def cancel_def)
  have 5: "settlement (tasks s p) = Fulfilled v \<longrightarrow> isAborted p s"
    using pending by (cases "sig_reason (tasks s p)") (simp_all add: isAborted_def)
  have 6: "isAborted p s \<longrightarrow>
            settlement (tasks (abort p r s) p) = settlement (tasks s p) \<and>
            settlement (tasks (timer_fires p s) p) = settlement (tasks s p) \<and>
            settlement (tasks (external_abort p r s) p) = settlement (tasks s p)"
    by (simp add: isAborted_def abort_settlement timer_fires_settlement_aborted
        external_abort_settlement_aborted)
  from 1 2 3 4 5 6 show ?thesis by blast
qed

theorem abort_rejects_when_rejectOnAbort_witness:
  "history [New (Object \<lparr>abortSignal = Some None, rejectOnAbort = None, timeout = Some (Num 50)\<rparr>) None]
   \<and> cfg_rejectOnAbort (tasks (run
        [New (Object \<lparr>abortSignal = Some None, rejectOnAbort = None, timeout = Some (Num 50)\<rparr>) None]
        empty_store) 0)
   \<and> \<not> isAborted 0 (run
        [New (Object \<lparr>abortSignal = Some None, rejectOnAbort = None, timeout = Some (Num 50)\<rparr>) None]
        empty_store)
   \<and> timer (tasks (run
        [New (Object \<lparr>abortSignal = Some None, rejectOnAbort = None, timeout = Some (Num 50)\<rparr>) None]
        empty_store) 0) = Scheduled (Num 50)
   \<and> ext_signal (tasks (run
        [New (Object \<lparr>abortSignal = Some None, rejectOnAbort = None, timeout = Some (Num 50)\<rparr>) None]
        empty_store) 0) = Some None
   \<and> settlement (tasks (abort 0 (VStr ''x'') (run
        [New (Object \<lparr>abortSignal = Some None, rejectOnAbort = None, timeout = Some (Num 50)\<rparr>) None]
        empty_store)) 0) = Rejected (VStr ''x'')
   \<and> settlement (tasks (timer_fires 0 (run
        [New (Object \<lparr>abortSignal = Some None, rejectOnAbort = None, timeout = Some (Num 50)\<rparr>) None]
        empty_store)) 0) = Rejected (VTimeoutError (Num 50))
   \<and> settlement (tasks (external_abort 0 (VStr ''x'') (run
        [New (Object \<lparr>abortSignal = Some None, rejectOnAbort = None, timeout = Some (Num 50)\<rparr>) None]
        empty_store)) 0) = Rejected (VStr ''x'')
   \<and> settlement (tasks (run [New (Function ([XResolve (VNum 1)], RetUndefined)) None]
        empty_store) 0) = Fulfilled (VNum 1)
   \<and> settlement (tasks (abort 0 (VStr ''x'')
        (run [New (Function ([XResolve (VNum 1)], RetUndefined)) None] empty_store)) 0)
       = Fulfilled (VNum 1)"
proof -
  let ?as = "[New (Object \<lparr>abortSignal = Some None, rejectOnAbort = None, timeout = Some (Num 50)\<rparr>) None]"
  have h: "history ?as"
    by (simp add: history_def)
  have c: "cfg_rejectOnAbort (tasks (run ?as empty_store) 0)"
    by (simp add: model_defs)
  have n: "\<not> isAborted 0 (run ?as empty_store)"
    and t: "timer (tasks (run ?as empty_store) 0) = Scheduled (Num 50)"
    and e: "ext_signal (tasks (run ?as empty_store) 0) = Some None"
    by (simp_all add: model_defs isAborted_def)
  let ?bs = "[New (Function ([XResolve (VNum 1)], RetUndefined)) None]"
  have h2: "history ?bs"
    by (simp add: history_def)
  have c2: "cfg_rejectOnAbort (tasks (run ?bs empty_store) 0)"
    and f: "settlement (tasks (run ?bs empty_store) 0) = Fulfilled (VNum 1)"
    by (simp_all add: model_defs withResolved_def)
  show ?thesis
    using abort_rejects_when_rejectOnAbort [OF h refl c, of "VStr ''x''" "Num 50"]
      abort_rejects_when_rejectOnAbort [OF h2 refl c2, of "VStr ''x''" _ _ "VNum 1"]
      h c n t e f
    by simp
qed

text \<open>
  A task is constructed with \<^verbatim>\<open>rejectOnAbort: false\<close> at any point of a history, by
  a call that passes the options after a work function or as the only argument, and the
  history goes on. Calling \<^verbatim>\<open>abort\<close> on the task then leaves its settlement as it is,
  \<^verbatim>\<open>isAborted()\<close> is true afterwards, and \<^verbatim>\<open>abortReason()\<close> is the reason passed
  (the host's default error for \<^verbatim>\<open>undefined\<close>) when the call is the one that aborts
  the signal.
\<close>

theorem abort_without_rejectOnAbort:
  assumes "history (as @ New a m # bs)"
    and "(a = Function e \<and> m = Some opts) \<or> (a = Object opts \<and> m = None)"
    and "rejectOnAbort opts = Some False"
    and "p = next_id (run as empty_store)"
    and "s = run (as @ New a m # bs) empty_store"
  shows "settlement (tasks (abort_m p r s) p) = settlement (tasks s p)
       \<and> isAborted p (abort_m p r s)
       \<and> (\<not> isAborted p s \<longrightarrow> abortReason p (abort_m p r s) = Some (abort_value r))
       \<and> (isAborted p s \<longrightarrow> abortReason p (abort_m p r s) = abortReason p s)"
proof -
  let ?s1 = "run as empty_store"
  let ?s2 = "snd (construct a m ?s1)"
  have o: "options_or_empty a m = opts"
    using assms(2) by auto
  have s: "s = run bs ?s2"
    using assms(5) by (simp add: run_append)
  have lt: "p < next_id ?s2"
    using assms(4) construct_next_id [of ?s1 a m] by simp
  have "cfg_rejectOnAbort (tasks ?s2 p) = roa_of opts"
    using assms(4) o by simp
  then have cfg: "\<not> cfg_rejectOnAbort (tasks s p)" and lt': "p < next_id s"
    using run_existing [OF lt, of bs] assms(3) s by (simp_all add: roa_of_def)
  have inv: "store_inv s"
    using assms(1,5) by (simp add: history_store_inv)
  then have own: "abort_ref (tasks s p) = p"
    using cfg lt' by (simp add: store_inv_def)
  have "task_inv (tasks s p)"
    using inv by (simp add: store_inv_def)
  then have norej: "RejL \<notin> snd ` set (listeners (tasks s p))"
    using cfg by (simp add: task_inv_def)
  show ?thesis
    using own norej
    by (auto simp: abort_m_def abort_settlement abort_sig_reason isAborted_def abortReason_def)
qed

theorem abort_without_rejectOnAbort_witness:
  "history ([] @ New (Function ([XIsAborted], RetUndefined))
      (Some \<lparr>abortSignal = None, rejectOnAbort = Some False, timeout = None\<rparr>) # [])
   \<and> \<not> isAborted 0 (run [New (Function ([XIsAborted], RetUndefined))
      (Some \<lparr>abortSignal = None, rejectOnAbort = Some False, timeout = None\<rparr>)] empty_store)
   \<and> settlement (tasks (abort_m 0 (VStr ''x'') (run [New (Function ([XIsAborted], RetUndefined))
      (Some \<lparr>abortSignal = None, rejectOnAbort = Some False, timeout = None\<rparr>)] empty_store)) 0)
       = Pending
   \<and> isAborted 0 (abort_m 0 (VStr ''x'') (run [New (Function ([XIsAborted], RetUndefined))
      (Some \<lparr>abortSignal = None, rejectOnAbort = Some False, timeout = None\<rparr>)] empty_store))
   \<and> abortReason 0 (abort_m 0 (VStr ''x'') (run [New (Function ([XIsAborted], RetUndefined))
      (Some \<lparr>abortSignal = None, rejectOnAbort = Some False, timeout = None\<rparr>)] empty_store))
       = Some (VStr ''x'')"
proof -
  let ?o = "\<lparr>abortSignal = None, rejectOnAbort = Some False, timeout = None\<rparr>"
  let ?ex = "([XIsAborted], RetUndefined)"
  have h: "history ([] @ New (Function ?ex) (Some ?o) # [])"
    by (simp add: history_def)
  have c: "(Function ?ex = Function ?ex \<and> Some ?o = Some ?o)
            \<or> (Function ?ex = Object ?o \<and> Some ?o = None)"
    by simp
  have o: "rejectOnAbort ?o = Some False"
    by simp
  have p: "0 = next_id (run [] empty_store)"
    by (simp add: empty_store_def)
  have n: "\<not> isAborted 0 (run [New (Function ?ex) (Some ?o)] empty_store)"
    and pd: "settlement (tasks (run [New (Function ?ex) (Some ?o)] empty_store) 0) = Pending"
    by (simp_all add: model_defs isAborted_def abortReason_def)
  show ?thesis
    using abort_without_rejectOnAbort [OF h c o p refl, of "VStr ''x''"] h n pd
    by simp
qed

text \<open>
  C7. The claim speaks of every task constructed with \<^verbatim>\<open>rejectOnAbort: false\<close>. The
  second signature of the constructor (lines 70-75) declares the executor optional and
  the options as its second parameter, but lines 86-91 read the second argument only when
  the first is a function. In \<^verbatim>\<open>new AbortablePromise(undefined, {rejectOnAbort: false})\<close>
  the options are dropped: the local \<^verbatim>\<open>rejectOnAbort\<close> is \<^verbatim>\<open>true\<close>, line 162
  attaches \<^verbatim>\<open>rej\<close>, and \<^verbatim>\<open>abort("x")\<close> rejects the task with \<^verbatim>\<open>"x"\<close>. The same
  options after a work function, or as the only argument, keep the task pending.
\<close>

theorem rejectOnAbort_false_after_undefined_executor:
  "cfg_rejectOnAbort (tasks (snd (construct Undefined
       (Some \<lparr>abortSignal = None, rejectOnAbort = Some False, timeout = None\<rparr>) empty_store)) 0)
   \<and> settlement (tasks (abort_m 0 (VStr ''x'') (snd (construct Undefined
       (Some \<lparr>abortSignal = None, rejectOnAbort = Some False, timeout = None\<rparr>) empty_store))) 0)
     = Rejected (VStr ''x'')
   \<and> abortReason 0 (abort_m 0 (VStr ''x'') (snd (construct Undefined
       (Some \<lparr>abortSignal = None, rejectOnAbort = Some False, timeout = None\<rparr>) empty_store)))
     = Some (VStr ''x'')
   \<and> settlement (tasks (abort_m 0 (VStr ''x'') (snd (construct (Function ([], RetUndefined))
       (Some \<lparr>abortSignal = None, rejectOnAbort = Some False, timeout = None\<rparr>) empty_store))) 0)
     = Pending
   \<and> settlement (tasks (abort_m 0 (VStr ''x'') (snd (construct
       (Object \<lparr>abortSignal = None, rejectOnAbort = Some False, timeout = None\<rparr>) None
       empty_store))) 0)
     = Pending"
  by (simp add: model_defs abortReason_def)

section \<open>A signal that is already aborted\<close>

lemma blank_task_simps [simp]:
  "settlement blank_task = Pending" "reactions blank_task = []" "sig_reason blank_task = None"
  "listeners blank_task = []" "next_lid blank_task = 0" "cleanupFns blank_task = []"
  "timer blank_task = NoTimer" "ext_signal blank_task = None" "bridge blank_task = False"
  by (simp_all add: blank_task_def)

text \<open>
  C5, as the spec states it: with an external signal that is already aborted and the
  default \<^verbatim>\<open>rejectOnAbort\<close>, the task is rejected at once with the signal's reason and
  the work function sees \<^verbatim>\<open>isAborted()\<close> true at its first check. The second half fails:
  line 145 returns before the work function is called. For a work function that checks
  \<^verbatim>\<open>isAborted()\<close> first, the trace of the construction holds the rejection and the
  abort only, no call of the work function and no check. The first half fails for the call
  \<^verbatim>\<open>new AbortablePromise(undefined, {abortSignal})\<close>: lines 86-91 do not read the
  second argument there, and the task is left pending with a signal that has not aborted.
\<close>

theorem preaborted_signal_counterexample:
  "log (snd (construct (Function ([XIsAborted], RetUndefined))
       (Some \<lparr>abortSignal = Some (Some (VStr ''pre'')), rejectOnAbort = None, timeout = None\<rparr>)
       empty_store))
     = [EvRej 0 (VStr ''pre''), EvAbort 0 (VStr ''pre'')]
   \<and> EvExecutor 0 \<notin> set (log (snd (construct (Function ([XIsAborted], RetUndefined))
       (Some \<lparr>abortSignal = Some (Some (VStr ''pre'')), rejectOnAbort = None, timeout = None\<rparr>)
       empty_store)))
   \<and> EvIsAborted 0 True \<notin> set (log (snd (construct (Function ([XIsAborted], RetUndefined))
       (Some \<lparr>abortSignal = Some (Some (VStr ''pre'')), rejectOnAbort = None, timeout = None\<rparr>)
       empty_store)))
   \<and> settlement (tasks (snd (construct Undefined
       (Some \<lparr>abortSignal = Some (Some (VStr ''pre'')), rejectOnAbort = None, timeout = None\<rparr>)
       empty_store)) 0) = Pending
   \<and> \<not> isAborted 0 (snd (construct Undefined
       (Some \<lparr>abortSignal = Some (Some (VStr ''pre'')), rejectOnAbort = None, timeout = None\<rparr>)
       empty_store))"
  by (simp add: model_defs isAborted_def)

text \<open>
  C5, amended: the constructor is called with a work function and the options, or with the
  options alone. With an external signal that is already aborted and \<^verbatim>\<open>rejectOnAbort\<close>
  not false, the constructor rejects the task with the signal's reason, aborts the task's
  own signal with it, and returns without calling the work function, whatever it is.
\<close>

theorem preaborted_signal_rejects_without_work:
  assumes "(a = Function e \<and> m = Some opts) \<or> (a = Object opts \<and> m = None)"
    and "abortSignal opts = Some (Some reason)" and "rejectOnAbort opts \<noteq> Some False"
  shows "settlement (tasks (snd (construct a m s)) (next_id s)) = Rejected reason
       \<and> isAborted (next_id s) (snd (construct a m s))
       \<and> abortReason (next_id s) (snd (construct a m s)) = Some (abort_value reason)
       \<and> log (snd (construct a m s))
           = log s @ [EvRej (next_id s) reason, EvAbort (next_id s) reason]"
proof -
  have o: "options_or_empty a m = opts"
    using assms(1) by auto
  have roa: "roa_of opts"
    using assms(3) by (cases "rejectOnAbort opts") (simp_all add: roa_of_def)
  then have sc: "short_circuit opts"
    using assms(2) by (simp add: short_circuit_def)
  have eq: "snd (construct a m s) =
      assign_props (next_id s) (reject (next_id s) reason (alloc True opts s))"
    using sc roa assms(2) o
    by (simp add: construct_unfold executor_body_unfold process_abortSignal_def)
  show ?thesis
    by (simp add: eq reject_settlement reject_sig_reason reject_log isAborted_def
        abortReason_def dispatch_events_def)
qed

theorem preaborted_signal_rejects_without_work_witness:
  "settlement (tasks (snd (construct (Function ([XIsAborted], RetUndefined))
        (Some \<lparr>abortSignal = Some (Some (VStr ''pre'')), rejectOnAbort = None, timeout = None\<rparr>)
        empty_store)) 0) = Rejected (VStr ''pre'')
   \<and> log (snd (construct (Function ([XIsAborted], RetUndefined))
        (Some \<lparr>abortSignal = Some (Some (VStr ''pre'')), rejectOnAbort = None, timeout = None\<rparr>)
        empty_store)) = [EvRej 0 (VStr ''pre''), EvAbort 0 (VStr ''pre'')]
   \<and> settlement (tasks (snd (construct
        (Object \<lparr>abortSignal = Some (Some (VStr ''pre'')), rejectOnAbort = None, timeout = None\<rparr>)
        None empty_store)) 0) = Rejected (VStr ''pre'')"
proof -
  let ?o = "\<lparr>abortSignal = Some (Some (VStr ''pre'')), rejectOnAbort = None, timeout = None\<rparr>"
  let ?e = "([XIsAborted], RetUndefined)"
  have c1: "(Function ?e = Function ?e \<and> Some ?o = Some ?o)
             \<or> (Function ?e = Object ?o \<and> Some ?o = None)"
    by simp
  have c2: "(Object ?o = Function ?e \<and> None = Some ?o) \<or> (Object ?o = Object ?o \<and> None = None)"
    by simp
  have a: "abortSignal ?o = Some (Some (VStr ''pre''))" by simp
  have b: "rejectOnAbort ?o \<noteq> Some False" by simp
  show ?thesis
    using preaborted_signal_rejects_without_work [OF c1 a b, of empty_store]
      preaborted_signal_rejects_without_work [OF c2 a b, of empty_store]
    by (simp add: empty_store_def)
qed

section \<open>Listeners registered after the abort\<close>

text \<open>
  C6, as the spec states it: a listener registered through \<^verbatim>\<open>onAborted\<close> on a task that
  is already aborted is called at once with the abort reason. It fails: on a task aborted
  with \<^verbatim>\<open>"x"\<close>, registering listener 7 adds nothing to the trace.
\<close>

theorem onAborted_after_abort_counterexample:
  "isAborted 0 (run [New (Function ([], RetUndefined)) None, Abort 0 (VStr ''x'')] empty_store)
   \<and> abortReason 0 (run [New (Function ([], RetUndefined)) None, Abort 0 (VStr ''x'')]
        empty_store) = Some (VStr ''x'')
   \<and> log (run [New (Function ([], RetUndefined)) None, Abort 0 (VStr ''x'')] empty_store)
       = [EvExecutor 0, EvAbort 0 (VStr ''x''), EvRej 0 (VStr ''x'')]
   \<and> log (snd (run_op 0 (XOnAborted 7)
        (run [New (Function ([], RetUndefined)) None, Abort 0 (VStr ''x'')] empty_store)))
       = [EvExecutor 0, EvAbort 0 (VStr ''x''), EvRej 0 (VStr ''x'')]
   \<and> EvListener 0 7 (VStr ''x'') \<notin> set (log (snd (run_op 0 (XOnAborted 7)
        (run [New (Function ([], RetUndefined)) None, Abort 0 (VStr ''x'')] empty_store))))"
  by (simp add: model_defs isAborted_def abortReason_def)

text \<open>
  C6, amended: on a task that is already aborted, \<^verbatim>\<open>onAborted\<close> does not call the
  listener. It appends the listener to the signal's listeners and its detachment to the
  cleanup list, and a later call of \<^verbatim>\<open>abort\<close> calls no listener either.
\<close>

theorem onAborted_after_abort_only_registers:
  assumes "isAborted p s"
  shows "log (snd (run_op p (XOnAborted n) s)) = log s
       \<and> listeners (tasks (snd (run_op p (XOnAborted n) s)) p)
           = listeners (tasks s p) @ [(next_lid (tasks s p), UserL n)]
       \<and> cleanupFns (tasks (snd (run_op p (XOnAborted n) s)) p)
           = cleanupFns (tasks s p) @ [RemoveListener (next_lid (tasks s p)) (UserL n)]
       \<and> log (abort p r (snd (run_op p (XOnAborted n) s))) = log s @ [EvAbort p r]"
  using assms by (auto simp: onAborted_listeners abort_log isAborted_def)

theorem onAborted_after_abort_only_registers_witness:
  "isAborted 0 (run [New (Function ([], RetUndefined)) None, Abort 0 (VStr ''x'')] empty_store)
   \<and> log (snd (run_op 0 (XOnAborted 7)
        (run [New (Function ([], RetUndefined)) None, Abort 0 (VStr ''x'')] empty_store)))
       = log (run [New (Function ([], RetUndefined)) None, Abort 0 (VStr ''x'')] empty_store)
   \<and> listeners (tasks (snd (run_op 0 (XOnAborted 7)
        (run [New (Function ([], RetUndefined)) None, Abort 0 (VStr ''x'')] empty_store))) 0)
       = [(0, RejL), (1, UserL 7)]"
proof -
  let ?s = "run [New (Function ([], RetUndefined)) None, Abort 0 (VStr ''x'')] empty_store"
  have a: "isAborted 0 ?s"
    by (simp add: model_defs isAborted_def)
  have l: "listeners (tasks ?s 0) = [(0, RejL)]" and n: "next_lid (tasks ?s 0) = 1"
    by (simp_all add: model_defs)
  show ?thesis
    using onAborted_after_abort_only_registers [OF a, of 7] a l n by simp
qed

section \<open>The timeout\<close>

lemma ended_or_same_refl [simp]: "ended_or_same a a"
  by (simp add: ended_or_same_def)

lemma ended_or_same_trans:
  "ended_or_same a b \<Longrightarrow> ended_or_same b c \<Longrightarrow> ended_or_same a c"
  by (auto simp: ended_or_same_def)

lemma run_cleanup_timer:
  "ended_or_same (timer (tasks s q)) (timer (tasks (run_cleanup p c s) q))"
  by (cases c) (auto simp: ended_or_same_def split: timer.splits)

lemma run_cleanups_timer:
  "ended_or_same (timer (tasks s q)) (timer (tasks (run_cleanups p cs s) q))"
proof (induction cs arbitrary: s)
  case Nil
  show ?case by simp
next
  case (Cons c cs)
  show ?case
    using ended_or_same_trans [OF run_cleanup_timer [of s q p c] Cons.IH [of "run_cleanup p c s"]]
    by simp
qed

lemma resolve_timer: "ended_or_same (timer (tasks s q)) (timer (tasks (resolve p v s) q))"
  using run_cleanups_timer [of "abort p (withResolved v) (res p v s)" q p]
  by (simp add: resolve_def withCleanup_eq)

lemma reject_timer: "ended_or_same (timer (tasks s q)) (timer (tasks (reject p r s) q))"
  using run_cleanups_timer [of "abort p r (rej p r s)" q p]
  by (simp add: reject_def withCleanup_eq)

lemma run_op_timer: "ended_or_same (timer (tasks s q)) (timer (tasks (snd (run_op p x s)) q))"
  by (cases x) (simp_all add: resolve_timer reject_timer split: option.splits)

lemma run_ops_timer: "ended_or_same (timer (tasks s q)) (timer (tasks (snd (run_ops p xs s)) q))"
proof (induction xs arbitrary: s)
  case Nil
  show ?case by simp
next
  case (Cons x xs)
  show ?case
    using ended_or_same_trans [OF run_op_timer [of s q p x] Cons.IH [of "snd (run_op p x s)"]]
      run_op_timer [of s q p x]
    by (cases "run_op p x s") (auto split: option.splits)
qed

lemma call_executor_timer:
  "ended_or_same (timer (tasks s q)) (timer (tasks (snd (call_executor p ex s)) q))"
proof (cases ex)
  case None
  then show ?thesis by (simp add: call_executor_snd)
next
  case (Some e)
  let ?s1 = "snd (run_ops p (fst e) (add_log (EvExecutor p) s))"
  have a: "ended_or_same (timer (tasks s q)) (timer (tasks ?s1 q))"
    using run_ops_timer [of "add_log (EvExecutor p) s" q p "fst e"] by simp
  show ?thesis
    using Some a ended_or_same_trans [OF a reject_timer [of ?s1 q p]]
    by (simp add: call_executor_snd split: option.splits)
qed

lemma run_op_cleanupFns:
  "(ClearTimeout \<in> set (cleanupFns (tasks (snd (run_op p x s)) q)))
     = (ClearTimeout \<in> set (cleanupFns (tasks s q)))"
  by (cases x) (simp_all add: onAborted_listeners split: option.splits)

lemma call_executor_cleanupFns:
  "(ClearTimeout \<in> set (cleanupFns (tasks (snd (call_executor p ex s)) q)))
     = (ClearTimeout \<in> set (cleanupFns (tasks s q)))"
  by (rule call_executor_inv) (simp_all add: run_op_cleanupFns)

lemma then_m_existing [simp]:
  "q \<noteq> next_id s \<Longrightarrow> timer (tasks (snd (then_m p f g s)) q) = timer (tasks s q)"
  "q \<noteq> next_id s \<Longrightarrow> cleanupFns (tasks (snd (then_m p f g s)) q) = cleanupFns (tasks s q)"
  "q \<noteq> next_id s \<Longrightarrow> settlement (tasks (snd (then_m p f g s)) q) = settlement (tasks s q)"
  "q \<noteq> next_id s \<Longrightarrow> sig_reason (tasks (snd (then_m p f g s)) q) = sig_reason (tasks s q)"
  "q \<noteq> next_id s \<Longrightarrow> listeners (tasks (snd (then_m p f g s)) q) = listeners (tasks s q)"
  by (simp_all add: then_m_unfold)

lemma pre_executor_timer:
  "\<not> short_circuit opts \<Longrightarrow>
   timer (tasks (pre_executor opts s) (next_id s)) =
     (case timeout opts of None \<Rightarrow> NoTimer | Some t \<Rightarrow> if truthy t then Scheduled t else NoTimer)"
  by (auto simp: pre_executor_def process_timeout_def process_abortSignal_def short_circuit_def
      process_rejectOnAbort_def onAborted_def Let_def split: option.splits)

lemma pre_executor_cleanupFns:
  "\<not> short_circuit opts \<Longrightarrow>
   (ClearTimeout \<in> set (cleanupFns (tasks (pre_executor opts s) (next_id s))))
     = (\<exists>t. timeout opts = Some t \<and> truthy t)"
  by (auto simp: pre_executor_def process_timeout_def process_abortSignal_def short_circuit_def
      process_rejectOnAbort_def onAborted_def Let_def split: option.splits)

lemma short_circuit_timer:
  "opts = options_or_empty a m \<Longrightarrow> short_circuit opts \<Longrightarrow>
     timer (tasks (snd (construct a m s)) (next_id s)) = NoTimer \<and>
     cleanupFns (tasks (snd (construct a m s)) (next_id s)) = []"
proof -
  assume o: "opts = options_or_empty a m"
  assume sc: "short_circuit opts"
  then obtain r where r: "abortSignal opts = Some (Some r)" and roa: "roa_of opts"
    by (auto simp: short_circuit_def)
  have "ended_or_same (timer (tasks (alloc True opts s) (next_id s)))
          (timer (tasks (reject (next_id s) r (alloc True opts s)) (next_id s)))"
    by (rule reject_timer)
  then show ?thesis
    using sc r roa o [symmetric]
    by (simp add: construct_timer_fields executor_body_unfold process_abortSignal_def
        ended_or_same_def)
qed

lemma call_handler_timer:
  "ended_or_same (timer (tasks s q)) (timer (tasks (snd (call_handler h v s)) q))"
  by (cases h) (simp_all add: reject_timer)

lemma complete_timer:
  "ended_or_same (timer (tasks (snd x) q)) (timer (tasks (complete c x) q))"
  by (cases "(c, x)" rule: complete.cases) (simp_all add: resolve_timer reject_timer)

lemma run_job_timer: "ended_or_same (timer (tasks s q)) (timer (tasks (run_job j s) q))"
proof (cases "(j, s)" rule: run_job.cases)
  case (1 c f g v s')
  then show ?thesis
  proof (cases f)
    case None
    with 1 show ?thesis
      using complete_timer [of "(Return v, s)" q c] by simp
  next
    case (Some h)
    from 1 Some
      ended_or_same_trans [OF call_handler_timer [of s q h v]
        complete_timer [of "call_handler h v s" q c]]
    show ?thesis by simp
  qed
next
  case (2 c f g r s')
  then show ?thesis
  proof (cases g)
    case None
    with 2 show ?thesis
      using complete_timer [of "(Throw r, s)" q c] by simp
  next
    case (Some h)
    from 2 Some
      ended_or_same_trans [OF call_handler_timer [of s q h r]
        complete_timer [of "call_handler h r s" q c]]
    show ?thesis by simp
  qed
qed

lemma run_microtask_timer:
  "ended_or_same (timer (tasks s q)) (timer (tasks (run_microtask s) q))"
proof (cases "microtasks s")
  case Nil
  then show ?thesis by (simp add: run_microtask_def)
next
  case (Cons j js)
  then show ?thesis
    using run_job_timer [of "s\<lparr>microtasks := js\<rparr>" q j] by (simp add: run_microtask_def)
qed

lemma timer_fires_timer:
  "ended_or_same (timer (tasks s q)) (timer (tasks (timer_fires p s) q))"
  by (simp add: timer_fires_def ended_or_same_def split: timer.splits)

lemma external_abort_timer [simp]:
  "timer (tasks (external_abort p r s) q) = timer (tasks s q)"
  by (simp add: external_abort_def Let_def split: option.splits)

lemma finally_m_existing_timer [simp]:
  "q \<noteq> next_id s \<Longrightarrow> timer (tasks (snd (finally_m p f s)) q) = timer (tasks s q)"
  by (simp add: finally_m_unfold super_finally_def split: option.splits)

lemma perform_timer:
  assumes "q < next_id s"
  shows "ended_or_same (timer (tasks s q)) (timer (tasks (perform a s) q))"
proof (cases a)
  case (Reject p r)
  then show ?thesis by (simp add: reject_m_def reject_timer)
next
  case (Ctx p x)
  then show ?thesis by (simp add: run_op_timer)
next
  case (Unsubscribe p k l)
  then show ?thesis by (simp add: run_cleanup_timer del: run_cleanup.simps)
next
  case (TimerFires p)
  then show ?thesis by (simp add: timer_fires_timer)
next
  case Microtask
  then show ?thesis by (simp add: run_microtask_timer)
next
  case (SettleNative n out)
  then show ?thesis by (cases out) simp_all
qed (use assms in \<open>simp_all add: abort_m_def cancel_def catch_m_def\<close>)

lemma run_timer:
  assumes "q < next_id s"
  shows "ended_or_same (timer (tasks s q)) (timer (tasks (run as s) q))"
  using assms
proof (induction as arbitrary: s)
  case Nil
  show ?case by simp
next
  case (Cons a as)
  have "q < next_id (perform a s)"
    using perform_existing [OF Cons.prems, of a] by simp
  from ended_or_same_trans [OF perform_timer [OF Cons.prems, of a] Cons.IH [OF this]]
  show ?case by simp
qed

lemma construct_timer:
  "opts = options_or_empty a m \<Longrightarrow>
   timer (tasks (snd (construct a m s)) (next_id s)) =
     (if short_circuit opts then NoTimer
      else timer (tasks (snd (call_executor (next_id s) (executor_arg a) (pre_executor opts s)))
             (next_id s)))"
  using short_circuit_timer [of opts a m s]
  by (simp add: construct_timer_fields executor_body_unfold)

text \<open>
  C8, as the spec states it: the timer is started exactly when \<^verbatim>\<open>timeout\<close> is set and
  positive, and when it elapses before the task settles the task is aborted with a timeout
  error. Each part fails. A timeout of \<open>-5\<close>, which is not positive, starts a timer
  (whose expiry rejects the task with a timeout error carrying \<open>-5\<close>). A timeout of 50
  starts none when the constructor returns at line 145, and none in
  \<^verbatim>\<open>new AbortablePromise(undefined, {timeout: 50})\<close>, where lines 86-91 do not read the
  second argument. On a task built with \<^verbatim>\<open>rejectOnAbort: false\<close> and a timeout of 50,
  after \<^verbatim>\<open>abort("x")\<close> the task is still pending and the timer still scheduled, and
  the expiry of the timer leaves the abort reason \<^verbatim>\<open>"x"\<close> and the task pending.
\<close>

theorem timeout_guard_counterexample:
  "\<not> positive (Num (- 5))
   \<and> timer (tasks (snd (construct
      (Object \<lparr>abortSignal = None, rejectOnAbort = None, timeout = Some (Num (- 5))\<rparr>) None
      empty_store)) 0) = Scheduled (Num (- 5))
   \<and> settlement (tasks (timer_fires 0 (snd (construct
      (Object \<lparr>abortSignal = None, rejectOnAbort = None, timeout = Some (Num (- 5))\<rparr>) None
      empty_store))) 0) = Rejected (VTimeoutError (Num (- 5)))
   \<and> positive (Num 50)
   \<and> timer (tasks (snd (construct
      (Object \<lparr>abortSignal = Some (Some (VStr ''pre'')), rejectOnAbort = None,
         timeout = Some (Num 50)\<rparr>) None empty_store)) 0) = NoTimer
   \<and> timer (tasks (snd (construct Undefined
      (Some \<lparr>abortSignal = None, rejectOnAbort = None, timeout = Some (Num 50)\<rparr>)
      empty_store)) 0) = NoTimer
   \<and> settlement (tasks (abort_m 0 (VStr ''x'') (snd (construct
      (Object \<lparr>abortSignal = None, rejectOnAbort = Some False, timeout = Some (Num 50)\<rparr>) None
      empty_store))) 0) = Pending
   \<and> timer (tasks (abort_m 0 (VStr ''x'') (snd (construct
      (Object \<lparr>abortSignal = None, rejectOnAbort = Some False, timeout = Some (Num 50)\<rparr>) None
      empty_store))) 0) = Scheduled (Num 50)
   \<and> abortReason 0 (timer_fires 0 (abort_m 0 (VStr ''x'') (snd (construct
      (Object \<lparr>abortSignal = None, rejectOnAbort = Some False, timeout = Some (Num 50)\<rparr>) None
      empty_store)))) = Some (VStr ''x'')
   \<and> settlement (tasks (timer_fires 0 (abort_m 0 (VStr ''x'') (snd (construct
      (Object \<lparr>abortSignal = None, rejectOnAbort = Some False, timeout = Some (Num 50)\<rparr>) None
      empty_store)))) 0) = Pending"
  by (simp add: model_defs timer_fires_def abortReason_def)

text \<open>
  C8, amended: a task is constructed at any point of a history, by a call that passes the
  options after a work function or as the only argument. The timer is started, and its
  cancellation is pushed on the cleanup list, exactly when \<^verbatim>\<open>timeout\<close> is set to a
  number that is neither zero nor \<^verbatim>\<open>NaN\<close> and the constructor does not return at line
  145. Later in the history a timer that is still scheduled carries the configured
  duration. When it expires while the task's signal has not aborted, the signal aborts with
  a timeout error carrying that duration and, if \<^verbatim>\<open>rejectOnAbort\<close> holds, the task is
  rejected with it; when it expires after the signal has aborted, neither the abort reason
  nor the settlement changes.
\<close>

theorem timeout_guard:
  assumes "history (as @ New a m # bs)"
    and "(a = Function e \<and> m = Some opts) \<or> (a = Object opts \<and> m = None)"
    and "p = next_id (run as empty_store)"
    and "s1 = snd (construct a m (run as empty_store))"
    and "s = run (as @ New a m # bs) empty_store"
  shows "(timer (tasks s1 p) \<noteq> NoTimer)
           = ((\<exists>t. timeout opts = Some t \<and> truthy t) \<and> \<not> short_circuit opts)
       \<and> (ClearTimeout \<in> set (cleanupFns (tasks s1 p)))
           = ((\<exists>t. timeout opts = Some t \<and> truthy t) \<and> \<not> short_circuit opts)
       \<and> (timer (tasks s p) = Scheduled d \<longrightarrow> timeout opts = Some d)
       \<and> (timer (tasks s p) = Scheduled d \<and> \<not> isAborted p s \<longrightarrow>
            abortReason p (timer_fires p s) = Some (VTimeoutError d)
            \<and> (roa_of opts \<longrightarrow>
                 settlement (tasks (timer_fires p s) p) = Rejected (VTimeoutError d)))
       \<and> (isAborted p s \<longrightarrow>
            abortReason p (timer_fires p s) = abortReason p s
            \<and> settlement (tasks (timer_fires p s) p) = settlement (tasks s p))"
proof -
  let ?s0 = "run as empty_store"
  let ?pre = "pre_executor opts ?s0"
  let ?ex = "executor_arg a"
  have o: "opts = options_or_empty a m"
    using assms(2) by auto
  have s: "s = run bs s1"
    using assms(4,5) by (simp add: run_append)
  have lt: "p < next_id s1"
    using assms(3,4) construct_next_id [of ?s0 a m] by simp
  have ex_timer: "ended_or_same (timer (tasks ?pre p))
                    (timer (tasks (snd (call_executor p ?ex ?pre)) p))"
    by (rule call_executor_timer)
  have t1: "timer (tasks s1 p) =
      (if short_circuit opts then NoTimer else timer (tasks (snd (call_executor p ?ex ?pre)) p))"
    using assms(3,4) construct_timer [OF o, of ?s0] by simp
  have 1: "(timer (tasks s1 p) \<noteq> NoTimer)
           = ((\<exists>t. timeout opts = Some t \<and> truthy t) \<and> \<not> short_circuit opts)"
  proof (cases "short_circuit opts")
    case True
    then show ?thesis using t1 by simp
  next
    case False
    then show ?thesis
      using t1 ex_timer pre_executor_timer [OF False, of ?s0] assms(3)
      by (auto simp: ended_or_same_def split: option.splits if_splits)
  qed
  have 2: "(ClearTimeout \<in> set (cleanupFns (tasks s1 p)))
           = ((\<exists>t. timeout opts = Some t \<and> truthy t) \<and> \<not> short_circuit opts)"
  proof (cases "short_circuit opts")
    case True
    then show ?thesis
      using short_circuit_timer [OF o True, of ?s0] assms(3,4) by simp
  next
    case False
    then show ?thesis
      using pre_executor_cleanupFns [OF False, of ?s0] assms(3,4) o [symmetric]
      by (simp add: construct_timer_fields executor_body_unfold call_executor_cleanupFns)
  qed
  have 3: "timer (tasks s p) = Scheduled d \<longrightarrow> timeout opts = Some d"
  proof
    assume sd: "timer (tasks s p) = Scheduled d"
    have "ended_or_same (timer (tasks s1 p)) (timer (tasks s p))"
      using run_timer [OF lt, of bs] s by simp
    with sd have a: "timer (tasks s1 p) = Scheduled d"
      by (auto simp: ended_or_same_def)
    then have nsc: "\<not> short_circuit opts"
      using t1 by (auto split: if_splits)
    with a t1 have "timer (tasks (snd (call_executor p ?ex ?pre)) p) = Scheduled d"
      by simp
    with ex_timer have "timer (tasks ?pre p) = Scheduled d"
      by (auto simp: ended_or_same_def)
    then show "timeout opts = Some d"
      using pre_executor_timer [OF nsc, of ?s0] assms(3)
      by (auto split: option.splits if_splits)
  qed
  have cfg: "cfg_rejectOnAbort (tasks s p) = roa_of opts"
    using run_existing [OF lt, of bs] s assms(3,4) o by simp
  have inv: "task_inv (tasks s p)"
    using history_store_inv [OF assms(1)] assms(5) by (simp add: store_inv_def)
  have 4: "timer (tasks s p) = Scheduled d \<and> \<not> isAborted p s \<longrightarrow>
            abortReason p (timer_fires p s) = Some (VTimeoutError d)
            \<and> (roa_of opts \<longrightarrow>
                 settlement (tasks (timer_fires p s) p) = Rejected (VTimeoutError d))"
    using inv cfg
    by (auto simp: isAborted_def abortReason_def timer_fires_unfold abort_settlement
        abort_sig_reason task_inv_def)
  have 5: "isAborted p s \<longrightarrow>
            abortReason p (timer_fires p s) = abortReason p s
            \<and> settlement (tasks (timer_fires p s) p) = settlement (tasks s p)"
    by (auto simp: isAborted_def abortReason_def timer_fires_def abort_sig_reason
        abort_settlement split: timer.splits)
  from 1 2 3 4 5 show ?thesis by blast
qed

theorem timeout_guard_witness:
  "history ([] @ New (Function ([], RetFresh Pending))
      (Some \<lparr>abortSignal = None, rejectOnAbort = None, timeout = Some (Num 50)\<rparr>) # [])
   \<and> timer (tasks (run [New (Function ([], RetFresh Pending))
        (Some \<lparr>abortSignal = None, rejectOnAbort = None, timeout = Some (Num 50)\<rparr>)]
        empty_store) 0) = Scheduled (Num 50)
   \<and> \<not> isAborted 0 (run [New (Function ([], RetFresh Pending))
        (Some \<lparr>abortSignal = None, rejectOnAbort = None, timeout = Some (Num 50)\<rparr>)]
        empty_store)
   \<and> roa_of \<lparr>abortSignal = None, rejectOnAbort = None, timeout = Some (Num 50)\<rparr>
   \<and> ClearTimeout \<in> set (cleanupFns (tasks (snd (construct (Function ([], RetFresh Pending))
        (Some \<lparr>abortSignal = None, rejectOnAbort = None, timeout = Some (Num 50)\<rparr>)
        empty_store)) 0))
   \<and> settlement (tasks (timer_fires 0 (run [New (Function ([], RetFresh Pending))
        (Some \<lparr>abortSignal = None, rejectOnAbort = None, timeout = Some (Num 50)\<rparr>)]
        empty_store)) 0) = Rejected (VTimeoutError (Num 50))
   \<and> timer (tasks (snd (construct
        (Object \<lparr>abortSignal = None, rejectOnAbort = None, timeout = Some NaN\<rparr>) None
        empty_store)) 0) = NoTimer"
proof -
  let ?o = "\<lparr>abortSignal = None, rejectOnAbort = None, timeout = Some (Num 50)\<rparr>"
  let ?n = "\<lparr>abortSignal = None, rejectOnAbort = None, timeout = Some NaN\<rparr>"
  let ?e = "([], RetFresh Pending)"
  have h: "history ([] @ New (Function ?e) (Some ?o) # [])"
    by (simp add: history_def)
  have c: "(Function ?e = Function ?e \<and> Some ?o = Some ?o)
            \<or> (Function ?e = Object ?o \<and> Some ?o = None)"
    by simp
  have hn: "history ([] @ New (Object ?n) None # [])"
    by (simp add: history_def)
  have cn: "(Object ?n = Function ?e \<and> None = Some ?n) \<or> (Object ?n = Object ?n \<and> None = None)"
    by simp
  have p: "0 = next_id (run [] empty_store)"
    by (simp add: empty_store_def)
  have t: "timer (tasks (run [New (Function ?e) (Some ?o)] empty_store) 0) = Scheduled (Num 50)"
    and n: "\<not> isAborted 0 (run [New (Function ?e) (Some ?o)] empty_store)"
    by (simp_all add: model_defs isAborted_def)
  have r: "roa_of ?o" and sc: "\<not> short_circuit ?o"
    by (simp_all add: roa_of_def short_circuit_def)
  have tn: "\<forall>t. timeout ?n = Some t \<longrightarrow> \<not> truthy t"
    by simp
  show ?thesis
    using timeout_guard [OF h c p refl refl, of "Num 50"]
      timeout_guard [OF hn cn p refl refl] h t n r sc tn
    by simp
qed

section \<open>Faults of the work function\<close>

lemma call_executor_fst:
  "fst (call_executor p (Some (ops, ret)) s) =
     (case fst (run_ops p ops (add_log (EvExecutor p) s)) of
        Some e \<Rightarrow> RetUndefined | None \<Rightarrow> ret)"
  by (cases "run_ops p ops (add_log (EvExecutor p) s)")
     (auto simp: call_executor_def split: option.splits)

lemma new_capability_microtasks [simp]: "microtasks (snd (new_capability s)) = microtasks s"
  by (simp add: new_capability_unfold executor_body_unfold short_circuit_def no_options_def
      call_executor_def pre_executor_def process_timeout_def process_abortSignal_def)

lemma new_capability_log [simp]:
  "log (snd (new_capability s)) = log s @ [EvExecutor (next_id s)]"
  by (simp add: new_capability_unfold executor_body_unfold short_circuit_def no_options_def
      call_executor_def pre_executor_def process_timeout_def process_abortSignal_def)

lemma new_capability_task:
  "tasks (snd (new_capability s)) (next_id s) =
     \<lparr> settlement = Pending, reactions = [], handled = False, sig_reason = None,
       listeners = [(0, RejL)], next_lid = Suc 0, cleanupFns = [RemoveListener 0 RejL],
       timer = NoTimer, ext_signal = None, bridge = False, cfg_rejectOnAbort = True,
       abort_ref = next_id s, reject_ref = next_id s \<rparr>"
  by (simp add: new_capability_unfold executor_body_unfold short_circuit_def no_options_def
      call_executor_def pre_executor_def process_timeout_def process_abortSignal_def
      process_rejectOnAbort_def onAborted_def Let_def alloc_def upd_task_def add_log_def
      assign_props_def blank_task_def roa_of_def)

lemma then_m_reactions:
  "q \<noteq> next_id s \<Longrightarrow>
   reactions (tasks (snd (then_m p f g s)) q) =
     (if q = p \<and> settlement (tasks s p) = Pending
      then reactions (tasks s p) @ [(Task (next_id s), f, g)] else reactions (tasks s q))"
  by (auto simp: then_m_unfold super_then_snd split: settlement.splits)

lemma then_m_microtasks:
  "p \<noteq> next_id s \<Longrightarrow>
   microtasks (snd (then_m p f g s)) =
     microtasks s @
       (case settlement (tasks s p) of
          Pending \<Rightarrow> []
        | Fulfilled v \<Rightarrow> [((Task (next_id s), f, g), OkV v)]
        | Rejected e \<Rightarrow> [((Task (next_id s), f, g), ErrV e)])"
  by (simp add: then_m_unfold super_then_snd split: settlement.splits)

lemma then_m_handled:
  "q \<noteq> next_id s \<Longrightarrow>
   handled (tasks (snd (then_m p f g s)) q) = (q = p \<or> handled (tasks s q))"
  by (auto simp: then_m_unfold super_then_snd split: settlement.splits)

lemma natives_eqI: "host_part s' = host_part s \<Longrightarrow> natives s' = natives s"
  by (simp add: host_part_def)

lemma next_native_eqI: "host_part s' = host_part s \<Longrightarrow> next_native s' = next_native s"
  by (simp add: host_part_def)

lemma then_m_child:
  "p \<noteq> next_id s \<Longrightarrow>
   tasks (snd (then_m p f g s)) (next_id s) =
     \<lparr> settlement = Pending, reactions = [], handled = False, sig_reason = None,
       listeners = [(0, RejL)], next_lid = Suc 0, cleanupFns = [RemoveListener 0 RejL],
       timer = NoTimer, ext_signal = None, bridge = False, cfg_rejectOnAbort = True,
       abort_ref = abort_ref (tasks s p), reject_ref = reject_ref (tasks s p) \<rparr>"
  by (simp add: then_m_unfold super_then_snd reassignProps_def upd_task_def new_capability_task
      split: settlement.splits)

lemma executor_body_called:
  "\<not> short_circuit opts \<Longrightarrow>
     executor_body (Some (ops, ret)) opts s =
       (next_id s,
        (case fst (run_ops (next_id s) ops (add_log (EvExecutor (next_id s)) (pre_executor opts s))) of
           Some e \<Rightarrow> RetUndefined | None \<Rightarrow> ret),
        (case fst (run_ops (next_id s) ops (add_log (EvExecutor (next_id s)) (pre_executor opts s))) of
           Some e \<Rightarrow> reject (next_id s) e
             (snd (run_ops (next_id s) ops (add_log (EvExecutor (next_id s)) (pre_executor opts s))))
         | None \<Rightarrow>
             snd (run_ops (next_id s) ops (add_log (EvExecutor (next_id s)) (pre_executor opts s)))))"
  by (cases "run_ops (next_id s) ops (add_log (EvExecutor (next_id s)) (pre_executor opts s))")
     (auto simp: executor_body_unfold call_executor_def split: option.splits)

text \<open>
  C9, as the spec states it: every fault of the work function surfaces as the task's
  rejection. It fails when the task is settled before the fault: a work function that
  calls \<^verbatim>\<open>resolve(1)\<close> and then throws \<^verbatim>\<open>"e"\<close> leaves the task fulfilled with 1, and
  so does an \<^verbatim>\<open>async\<close> work function that calls \<^verbatim>\<open>resolve(1)\<close> and whose promise
  is rejected with \<^verbatim>\<open>"e"\<close>, after the job of the handler of line 207 has run.
\<close>

theorem work_fault_counterexample:
  "fst (run_ops 0 [XResolve (VNum 1), XThrow (VStr ''e'')]
        (add_log (EvExecutor 0) (pre_executor no_options empty_store))) = Some (VStr ''e'')
   \<and> settlement (tasks (snd (construct
        (Function ([XResolve (VNum 1), XThrow (VStr ''e'')], RetUndefined)) None
        empty_store)) 0) = Fulfilled (VNum 1)
   \<and> microtasks (snd (construct
        (Function ([XResolve (VNum 1)], RetFresh (Rejected (VStr ''e'')))) None empty_store))
       = [((Native 1, None, Some (HReject 0)), ErrV (VStr ''e''))]
   \<and> settlement (tasks (run [New
        (Function ([XResolve (VNum 1)], RetFresh (Rejected (VStr ''e'')))) None, Microtask]
        empty_store) 0) = Fulfilled (VNum 1)"
  by (simp add: model_defs pre_executor_def withResolved_def run_microtask_def)

text \<open>
  C9, amended: every fault of the work function reaches the task's \<^verbatim>\<open>reject\<close>, and
  none is left as an unhandled rejection of the returned promise or of the promise that
  \<^verbatim>\<open>catch\<close> derives from it. When the work function is called and throws, the
  constructor ends by calling \<^verbatim>\<open>reject\<close> with the thrown value. When it returns a
  promise (an instance of the class or a promise of the host, one that existed before or
  one that the work function has made), the constructor attaches the task's \<^verbatim>\<open>reject\<close>
  to it as a rejection handler: the promise is marked as handled, and the handler is a
  reaction on a pending promise and a queued job on a rejected one. The job of that
  handler calls \<^verbatim>\<open>reject\<close> with the promise's reason and fulfils the derived promise
  with \<^verbatim>\<open>undefined\<close>; the job that passes a fulfilment on leaves the task as it is.
  The call of \<^verbatim>\<open>reject\<close> rejects the task with the fault when the task is still
  pending; a task that has settled before keeps its settlement.
\<close>

theorem work_fault_reaches_reject:
  assumes "m = Some opts \<or> (m = None \<and> opts = no_options)"
    and "\<not> short_circuit opts" and "p = next_id s"
    and "s0 = add_log (EvExecutor p) (pre_executor opts s)"
    and "s1 = snd (run_ops p ops s0)"
  shows "(fst (run_ops p ops s0) = Some e \<longrightarrow>
            snd (construct (Function (ops, ret)) m s) = assign_props p (reject p e s1)
          \<and> settlement (tasks (snd (construct (Function (ops, ret)) m s)) p)
              = (if settlement (tasks s1 p) = Pending then Rejected e
                 else settlement (tasks s1 p)))
       \<and> (fst (run_ops p ops s0) = None \<and> q < p \<longrightarrow>
            handled (tasks (snd (construct (Function (ops, RetTask q)) m s)) q)
          \<and> \<not> unhandled (snd (construct (Function (ops, RetTask q)) m s)) (Task q)
          \<and> (settlement (tasks s q) = Pending \<longrightarrow>
               reactions (tasks (snd (construct (Function (ops, RetTask q)) m s)) q) =
                 reactions (tasks s q) @ [(Task (Suc p), None, Some (HReject p))])
          \<and> (settlement (tasks s q) = Rejected r \<longrightarrow>
               microtasks (snd (construct (Function (ops, RetTask q)) m s)) =
                 microtasks s1 @ [((Task (Suc p), None, Some (HReject p)), ErrV r)]))
       \<and> (fst (run_ops p ops s0) = None \<and> sn = snd (construct a' m' s1) \<longrightarrow>
            handled (tasks (snd (construct (Function (ops, RetNew a' m')) m s)) (Suc p))
          \<and> \<not> unhandled (snd (construct (Function (ops, RetNew a' m')) m s)) (Task (Suc p))
          \<and> (settlement (tasks sn (Suc p)) = Pending \<longrightarrow>
               reactions (tasks (snd (construct (Function (ops, RetNew a' m')) m s)) (Suc p)) =
                 reactions (tasks sn (Suc p)) @ [(Task (next_id sn), None, Some (HReject p))])
          \<and> (settlement (tasks sn (Suc p)) = Rejected r \<longrightarrow>
               microtasks (snd (construct (Function (ops, RetNew a' m')) m s)) =
                 microtasks sn @ [((Task (next_id sn), None, Some (HReject p)), ErrV r)]))
       \<and> (fst (run_ops p ops s0) = None \<and> n < next_native s \<longrightarrow>
            n_handled (natives (snd (construct (Function (ops, RetNative n)) m s)) n)
          \<and> \<not> unhandled (snd (construct (Function (ops, RetNative n)) m s)) (Native n)
          \<and> (n_settlement (natives s n) = Pending \<longrightarrow>
               n_reactions (natives (snd (construct (Function (ops, RetNative n)) m s)) n) =
                 n_reactions (natives s n) @ [(Native (next_native s), None, Some (HReject p))])
          \<and> (n_settlement (natives s n) = Rejected r \<longrightarrow>
               microtasks (snd (construct (Function (ops, RetNative n)) m s)) =
                 microtasks s1 @ [((Native (next_native s), None, Some (HReject p)), ErrV r)]))
       \<and> (fst (run_ops p ops s0) = None \<longrightarrow>
            n_handled (natives (snd (construct (Function (ops, RetFresh st)) m s))
              (next_native s))
          \<and> \<not> unhandled (snd (construct (Function (ops, RetFresh st)) m s))
                (Native (next_native s))
          \<and> n_settlement (natives (snd (construct (Function (ops, RetFresh st)) m s))
              (next_native s)) = st
          \<and> (st = Pending \<longrightarrow>
               n_reactions (natives (snd (construct (Function (ops, RetFresh st)) m s))
                 (next_native s)) = [(Native (Suc (next_native s)), None, Some (HReject p))])
          \<and> (st = Rejected r \<longrightarrow>
               microtasks (snd (construct (Function (ops, RetFresh st)) m s)) =
                 microtasks s1 @
                   [((Native (Suc (next_native s)), None, Some (HReject p)), ErrV r)]))
       \<and> run_job ((c, None, Some (HReject p)), ErrV r) s2
            = complete c (Return VUndefined, reject p r s2)
       \<and> (c \<noteq> Task p \<longrightarrow>
            settlement (tasks (run_job ((c, None, Some (HReject p)), ErrV r) s2) p)
              = (if settlement (tasks s2 p) = Pending then Rejected r
                 else settlement (tasks s2 p))
          \<and> settlement (tasks (run_job ((c, None, Some (HReject p)), OkV v) s2) p)
              = settlement (tasks s2 p)
          \<and> (case c of
                Task k \<Rightarrow>
                  settlement (tasks (run_job ((c, None, Some (HReject p)), ErrV r) s2) k)
                    = (if settlement (tasks s2 k) = Pending then Fulfilled VUndefined
                       else settlement (tasks s2 k))
              | Native k \<Rightarrow>
                  n_settlement (natives (run_job ((c, None, Some (HReject p)), ErrV r) s2) k)
                    = (if n_settlement (natives s2 k) = Pending then Fulfilled VUndefined
                       else n_settlement (natives s2 k)))
          \<and> (\<not> unhandled s2 c \<longrightarrow>
               \<not> unhandled (run_job ((c, None, Some (HReject p)), ErrV r) s2) c))"
proof -
  let ?f = "\<lambda>ret. snd (construct (Function (ops, ret)) m s)"
  let ?h = "Some (HReject p)"
  have o: "options_or_empty (Function (ops, ret)) m = opts" for ret
    using assms(1) by auto
  have thrown: "fst (run_ops p ops s0) = Some e \<Longrightarrow> ?f ret = assign_props p (reject p e s1)"
    for ret
    using assms(2-5) by (simp add: construct_unfold o executor_body_called)
  have 1: "fst (run_ops p ops s0) = Some e \<longrightarrow>
            ?f ret = assign_props p (reject p e s1)
          \<and> settlement (tasks (?f ret) p)
              = (if settlement (tasks s1 p) = Pending then Rejected e
                 else settlement (tasks s1 p))"
    using thrown [of ret] by (simp add: reject_settlement)
  have nid: "next_id s1 = Suc p"
    using assms(3-5) by simp
  have same: "x < p \<Longrightarrow> tasks s1 x = tasks s x" for x
    using assms(3-5) by simp
  have hp: "host_part s1 = host_part s"
    using assms(4,5) by simp
  have nat: "natives s1 = natives s" and nn: "next_native s1 = next_native s"
    using hp by (simp_all add: host_part_def)
  have natA: "natives (assign_props p x) = natives x" for x
    by (rule natives_eqI) simp
  have rt: "fst (run_ops p ops s0) = None \<Longrightarrow>
      ?f (RetTask q) = assign_props p (snd (catch_m q ?h s1))"
    using assms(2-5) by (simp add: construct_unfold o executor_body_called)
  have 2: "fst (run_ops p ops s0) = None \<and> q < p \<longrightarrow>
            handled (tasks (?f (RetTask q)) q)
          \<and> \<not> unhandled (?f (RetTask q)) (Task q)
          \<and> (settlement (tasks s q) = Pending \<longrightarrow>
               reactions (tasks (?f (RetTask q)) q) =
                 reactions (tasks s q) @ [(Task (Suc p), None, ?h)])
          \<and> (settlement (tasks s q) = Rejected r \<longrightarrow>
               microtasks (?f (RetTask q)) =
                 microtasks s1 @ [((Task (Suc p), None, ?h), ErrV r)])"
  proof (intro impI)
    assume a: "fst (run_ops p ops s0) = None \<and> q < p"
    then have eq: "?f (RetTask q) = assign_props p (snd (catch_m q ?h s1))"
      by (simp add: rt)
    have ne: "q \<noteq> next_id s1"
      using a nid by simp
    show "handled (tasks (?f (RetTask q)) q)
          \<and> \<not> unhandled (?f (RetTask q)) (Task q)
          \<and> (settlement (tasks s q) = Pending \<longrightarrow>
               reactions (tasks (?f (RetTask q)) q) =
                 reactions (tasks s q) @ [(Task (Suc p), None, ?h)])
          \<and> (settlement (tasks s q) = Rejected r \<longrightarrow>
               microtasks (?f (RetTask q)) =
                 microtasks s1 @ [((Task (Suc p), None, ?h), ErrV r)])"
      using a ne nid same [of q]
      by (simp add: eq catch_m_def then_m_reactions then_m_microtasks then_m_handled)
  qed
  have rw: "fst (run_ops p ops s0) = None \<Longrightarrow>
      ?f (RetNew a' m') = assign_props p (snd (catch_m (Suc p) ?h (snd (construct a' m' s1))))"
    using assms(2-5) by (simp add: construct_unfold o executor_body_called)
  have 6: "fst (run_ops p ops s0) = None \<and> sn = snd (construct a' m' s1) \<longrightarrow>
            handled (tasks (?f (RetNew a' m')) (Suc p))
          \<and> \<not> unhandled (?f (RetNew a' m')) (Task (Suc p))
          \<and> (settlement (tasks sn (Suc p)) = Pending \<longrightarrow>
               reactions (tasks (?f (RetNew a' m')) (Suc p)) =
                 reactions (tasks sn (Suc p)) @ [(Task (next_id sn), None, ?h)])
          \<and> (settlement (tasks sn (Suc p)) = Rejected r \<longrightarrow>
               microtasks (?f (RetNew a' m')) =
                 microtasks sn @ [((Task (next_id sn), None, ?h), ErrV r)])"
  proof (intro impI)
    assume a: "fst (run_ops p ops s0) = None \<and> sn = snd (construct a' m' s1)"
    then have eq: "?f (RetNew a' m') = assign_props p (snd (catch_m (Suc p) ?h sn))"
      by (simp add: rw)
    have ne: "Suc p \<noteq> next_id sn"
      using a nid construct_next_id [of s1 a' m'] by simp
    show "handled (tasks (?f (RetNew a' m')) (Suc p))
          \<and> \<not> unhandled (?f (RetNew a' m')) (Task (Suc p))
          \<and> (settlement (tasks sn (Suc p)) = Pending \<longrightarrow>
               reactions (tasks (?f (RetNew a' m')) (Suc p)) =
                 reactions (tasks sn (Suc p)) @ [(Task (next_id sn), None, ?h)])
          \<and> (settlement (tasks sn (Suc p)) = Rejected r \<longrightarrow>
               microtasks (?f (RetNew a' m')) =
                 microtasks sn @ [((Task (next_id sn), None, ?h), ErrV r)])"
      using ne
      by (simp add: eq catch_m_def then_m_reactions then_m_microtasks then_m_handled)
  qed
  have rn: "fst (run_ops p ops s0) = None \<Longrightarrow>
      ?f (RetNative n) = assign_props p (snd (native_then n None ?h s1))"
    using assms(2-5) by (simp add: construct_unfold o executor_body_called)
  have 3: "fst (run_ops p ops s0) = None \<and> n < next_native s \<longrightarrow>
            n_handled (natives (?f (RetNative n)) n)
          \<and> \<not> unhandled (?f (RetNative n)) (Native n)
          \<and> (n_settlement (natives s n) = Pending \<longrightarrow>
               n_reactions (natives (?f (RetNative n)) n) =
                 n_reactions (natives s n) @ [(Native (next_native s), None, ?h)])
          \<and> (n_settlement (natives s n) = Rejected r \<longrightarrow>
               microtasks (?f (RetNative n)) =
                 microtasks s1 @ [((Native (next_native s), None, ?h), ErrV r)])"
  proof (intro impI)
    assume a: "fst (run_ops p ops s0) = None \<and> n < next_native s"
    then have eq: "?f (RetNative n) = assign_props p (snd (native_then n None ?h s1))"
      by (simp add: rn)
    have ne: "n \<noteq> next_native s1"
      using a nn by simp
    show "n_handled (natives (?f (RetNative n)) n)
          \<and> \<not> unhandled (?f (RetNative n)) (Native n)
          \<and> (n_settlement (natives s n) = Pending \<longrightarrow>
               n_reactions (natives (?f (RetNative n)) n) =
                 n_reactions (natives s n) @ [(Native (next_native s), None, ?h)])
          \<and> (n_settlement (natives s n) = Rejected r \<longrightarrow>
               microtasks (?f (RetNative n)) =
                 microtasks s1 @ [((Native (next_native s), None, ?h), ErrV r)])"
      using ne nat nn
      by (simp add: eq natA native_then_handled native_then_reactions native_then_microtasks)
  qed
  have rf: "fst (run_ops p ops s0) = None \<Longrightarrow>
      ?f (RetFresh x) =
        assign_props p (snd (native_then (next_native s) None ?h (snd (new_native x s1))))"
    for x
    using assms(2-5) by (simp add: construct_unfold o executor_body_called)
  have 4: "fst (run_ops p ops s0) = None \<longrightarrow>
            n_handled (natives (?f (RetFresh st)) (next_native s))
          \<and> \<not> unhandled (?f (RetFresh st)) (Native (next_native s))
          \<and> n_settlement (natives (?f (RetFresh st)) (next_native s)) = st
          \<and> (st = Pending \<longrightarrow>
               n_reactions (natives (?f (RetFresh st)) (next_native s)) =
                 [(Native (Suc (next_native s)), None, ?h)])
          \<and> (st = Rejected r \<longrightarrow>
               microtasks (?f (RetFresh st)) =
                 microtasks s1 @ [((Native (Suc (next_native s)), None, ?h), ErrV r)])"
  proof (intro impI)
    assume a: "fst (run_ops p ops s0) = None"
    have ne: "next_native s \<noteq> next_native (snd (new_native x s1))"
      and st: "n_settlement (natives (snd (new_native x s1)) (next_native s)) = x"
      and re: "n_reactions (natives (snd (new_native x s1)) (next_native s)) = []"
      and n2: "next_native (snd (new_native x s1)) = Suc (next_native s)"
      and m2: "microtasks (snd (new_native x s1)) = microtasks s1" for x
      using nn by (simp_all add: blank_native_def)
    show "n_handled (natives (?f (RetFresh st)) (next_native s))
          \<and> \<not> unhandled (?f (RetFresh st)) (Native (next_native s))
          \<and> n_settlement (natives (?f (RetFresh st)) (next_native s)) = st
          \<and> (st = Pending \<longrightarrow>
               n_reactions (natives (?f (RetFresh st)) (next_native s)) =
                 [(Native (Suc (next_native s)), None, ?h)])
          \<and> (st = Rejected r \<longrightarrow>
               microtasks (?f (RetFresh st)) =
                 microtasks s1 @ [((Native (Suc (next_native s)), None, ?h), ErrV r)])"
      using ne st re n2 m2
      by (simp add: rf [OF a] natA native_then_handled native_then_reactions
          native_then_microtasks native_then_settlement del: new_native_simps)
  qed
  have 5: "c \<noteq> Task p \<longrightarrow>
            settlement (tasks (run_job ((c, None, ?h), ErrV r) s2) p)
              = (if settlement (tasks s2 p) = Pending then Rejected r
                 else settlement (tasks s2 p))
          \<and> settlement (tasks (run_job ((c, None, ?h), OkV v) s2) p)
              = settlement (tasks s2 p)
          \<and> (case c of
                Task k \<Rightarrow>
                  settlement (tasks (run_job ((c, None, ?h), ErrV r) s2) k)
                    = (if settlement (tasks s2 k) = Pending then Fulfilled VUndefined
                       else settlement (tasks s2 k))
              | Native k \<Rightarrow>
                  n_settlement (natives (run_job ((c, None, ?h), ErrV r) s2) k)
                    = (if n_settlement (natives s2 k) = Pending then Fulfilled VUndefined
                       else n_settlement (natives s2 k)))
          \<and> (\<not> unhandled s2 c \<longrightarrow>
               \<not> unhandled (run_job ((c, None, ?h), ErrV r) s2) c)"
  proof (cases c)
    case (Task k)
    then show ?thesis
      by (auto simp: reject_settlement resolve_settlement)
  next
    case (Native k)
    have "natives (reject p r s2) = natives s2"
      by (rule natives_eqI) simp
    then show ?thesis
      using Native
      by (auto simp: reject_settlement native_res_settlement native_res_def native_settle_def
          split: settlement.splits)
  qed
  have 7: "run_job ((c, None, ?h), ErrV r) s2 = complete c (Return VUndefined, reject p r s2)"
    by simp
  from 1 2 6 3 4 7 5 show ?thesis by blast
qed

theorem work_fault_reaches_reject_witness:
  "\<not> short_circuit no_options
   \<and> fst (run_ops 0 [XThrow (VStr ''e'')]
        (add_log (EvExecutor 0) (pre_executor no_options empty_store))) = Some (VStr ''e'')
   \<and> settlement (tasks (snd (run_ops 0 [XThrow (VStr ''e'')]
        (add_log (EvExecutor 0) (pre_executor no_options empty_store)))) 0) = Pending
   \<and> settlement (tasks (snd (construct (Function ([XThrow (VStr ''e'')], RetUndefined)) None
        empty_store)) 0) = Rejected (VStr ''e'')
   \<and> fst (run_ops 0 [] (add_log (EvExecutor 0) (pre_executor no_options empty_store))) = None
   \<and> n_handled (natives (snd (construct (Function ([], RetFresh Pending)) None empty_store)) 0)
   \<and> n_reactions (natives (snd (construct (Function ([], RetFresh Pending)) None
        empty_store)) 0) = [(Native 1, None, Some (HReject 0))]
   \<and> settlement (tasks (run [New (Function ([], RetFresh Pending)) None,
        SettleNative 0 (ErrV (VStr ''boom'')), Microtask] empty_store) 0)
       = Rejected (VStr ''boom'')
   \<and> n_settlement (natives (run [New (Function ([], RetFresh Pending)) None,
        SettleNative 0 (ErrV (VStr ''boom'')), Microtask] empty_store) 1)
       = Fulfilled VUndefined
   \<and> \<not> unhandled (run [New (Function ([], RetFresh Pending)) None,
        SettleNative 0 (ErrV (VStr ''boom'')), Microtask] empty_store) (Native 0)
   \<and> \<not> unhandled (run [New (Function ([], RetFresh Pending)) None,
        SettleNative 0 (ErrV (VStr ''boom'')), Microtask] empty_store) (Native 1)
   \<and> settlement (tasks (run [New Undefined None, New (Function ([], RetTask 0)) None,
        Reject 0 (VStr ''boom''), Microtask] empty_store) 1) = Rejected (VStr ''boom'')
   \<and> settlement (tasks (run [New Undefined None, New (Function ([], RetTask 0)) None,
        Reject 0 (VStr ''boom''), Microtask] empty_store) 2) = Fulfilled VUndefined
   \<and> settlement (tasks (run [New (Function ([], RetNew
        (Function ([XReject (VStr ''boom'')], RetUndefined)) None)) None, Microtask]
        empty_store) 0) = Rejected (VStr ''boom'')
   \<and> settlement (tasks (run [New (Function ([], RetNew
        (Function ([XReject (VStr ''boom'')], RetUndefined)) None)) None, Microtask]
        empty_store) 2) = Fulfilled VUndefined
   \<and> \<not> unhandled (run [New (Function ([], RetNew
        (Function ([XReject (VStr ''boom'')], RetUndefined)) None)) None, Microtask]
        empty_store) (Task 1)"
proof -
  have m: "None = Some no_options \<or> (None = None \<and> no_options = no_options)"
    by simp
  have a: "\<not> short_circuit no_options"
    by (simp add: short_circuit_def no_options_def)
  have p: "0 = next_id empty_store"
    by (simp add: empty_store_def)
  have nn: "next_native empty_store = 0"
    by (simp add: empty_store_def)
  have t: "fst (run_ops 0 [XThrow (VStr ''e'')]
        (add_log (EvExecutor 0) (pre_executor no_options empty_store))) = Some (VStr ''e'')"
    and t0: "fst (run_ops 0 []
        (add_log (EvExecutor 0) (pre_executor no_options empty_store))) = None"
    by simp_all
  have pd: "settlement (tasks (snd (run_ops 0 [XThrow (VStr ''e'')]
        (add_log (EvExecutor 0) (pre_executor no_options empty_store)))) 0) = Pending"
    by (simp add: pre_executor_def model_defs)
  let ?as = "[New (Function ([], RetFresh Pending)) None,
        SettleNative 0 (ErrV (VStr ''boom'')), Microtask]"
  have r: "settlement (tasks (run ?as empty_store) 0) = Rejected (VStr ''boom'')"
    and d: "n_settlement (natives (run ?as empty_store) 1) = Fulfilled VUndefined"
    and u0: "\<not> unhandled (run ?as empty_store) (Native 0)"
    and u1: "\<not> unhandled (run ?as empty_store) (Native 1)"
    by (simp_all add: model_defs run_microtask_def)
  let ?bs = "[New Undefined None, New (Function ([], RetTask 0)) None,
        Reject 0 (VStr ''boom''), Microtask]"
  have r2: "settlement (tasks (run ?bs empty_store) 1) = Rejected (VStr ''boom'')"
    and d2: "settlement (tasks (run ?bs empty_store) 2) = Fulfilled VUndefined"
    by (simp_all add: model_defs catch_m_def then_m_def super_then_def new_capability_def
        reassignProps_def run_microtask_def withResolved_def)
  let ?cs = "[New (Function ([], RetNew
        (Function ([XReject (VStr ''boom'')], RetUndefined)) None)) None, Microtask]"
  have r3: "settlement (tasks (run ?cs empty_store) 0) = Rejected (VStr ''boom'')"
    and d3: "settlement (tasks (run ?cs empty_store) 2) = Fulfilled VUndefined"
    and u3: "\<not> unhandled (run ?cs empty_store) (Task 1)"
    by (simp_all add: model_defs catch_m_def then_m_def super_then_def new_capability_def
        reassignProps_def run_microtask_def withResolved_def)
  show ?thesis
    using work_fault_reaches_reject [OF m a p refl refl, of "[XThrow (VStr ''e'')]"
        "VStr ''e''" RetUndefined]
      work_fault_reaches_reject [OF m a p refl refl, where ops = "[]" and st = Pending]
      a t t0 pd r d u0 u1 r2 d2 nn r3 d3 u3
    by (simp add: reject_settlement)
qed

section \<open>Chained tasks\<close>

lemma settle_microtasks:
  "microtasks (settle p st out s) =
     microtasks s @
       (if settlement (tasks s p) = Pending then map (\<lambda>r. (r, out)) (reactions (tasks s p))
        else [])"
  by (simp add: settle_def split: settlement.splits)

lemma rej_microtasks:
  "microtasks (rej p r s) =
     microtasks s @
       (if settlement (tasks s p) = Pending then map (\<lambda>x. (x, ErrV r)) (reactions (tasks s p))
        else [])"
  by (simp add: rej_def settle_microtasks)

lemma res_microtasks:
  "microtasks (res p v s) =
     microtasks s @
       (if settlement (tasks s p) = Pending then map (\<lambda>x. (x, OkV v)) (reactions (tasks s p))
        else [])"
  by (simp add: res_def settle_microtasks)

lemma settle_reactions:
  "reactions (tasks (settle p st out s) q) =
     (if q = p \<and> settlement (tasks s p) = Pending then [] else reactions (tasks s q))"
  by (simp add: settle_def split: settlement.splits)

lemma notify_microtasks:
  "microtasks (notify p r l s) =
     microtasks s @
       (if l = RejL \<and> settlement (tasks s p) = Pending
        then map (\<lambda>x. (x, ErrV r)) (reactions (tasks s p)) else [])"
  by (cases l) (simp_all add: rej_microtasks split: val.splits)

lemma dispatch_microtasks:
  "microtasks (dispatch p r ls s) =
     microtasks s @
       (if RejL \<in> snd ` set ls \<and> settlement (tasks s p) = Pending
        then map (\<lambda>x. (x, ErrV r)) (reactions (tasks s p)) else [])"
proof (induction ls arbitrary: s)
  case Nil
  show ?case by simp
next
  case (Cons a ls)
  obtain k l where a: "a = (k, l)" by (cases a)
  show ?case
  proof (cases "l = RejL \<and> settlement (tasks s p) = Pending")
    case True
    then have "settlement (tasks (notify p r l s) p) \<noteq> Pending"
      by (simp add: notify_settlement)
    then show ?thesis
      using True a by (simp add: Cons.IH rej_microtasks)
  next
    case False
    then have "settlement (tasks (notify p r l s) p) = settlement (tasks s p)"
      by (simp add: notify_settlement)
    moreover from False have "reactions (tasks (notify p r l s) p) = reactions (tasks s p)"
      by (cases l) (simp_all add: rej_def settle_reactions split: val.splits)
    ultimately have "settlement (tasks (notify p r l s) p) = settlement (tasks s p)"
      and "reactions (tasks (notify p r l s) p) = reactions (tasks s p)"
      by simp_all
    then show ?thesis
      using False a by (auto simp: Cons.IH notify_microtasks)
  qed
qed

lemma abort_microtasks:
  "microtasks (abort p r s) =
     microtasks s @
       (if sig_reason (tasks s p) = None \<and> RejL \<in> snd ` set (listeners (tasks s p))
            \<and> settlement (tasks s p) = Pending
        then map (\<lambda>x. (x, ErrV (abort_value r))) (reactions (tasks s p)) else [])"
  by (simp add: abort_def controller_abort_def Let_def dispatch_microtasks)

lemma reject_microtasks:
  "microtasks (reject p r s) =
     microtasks s @
       (if settlement (tasks s p) = Pending
        then map (\<lambda>x. (x, ErrV r)) (reactions (tasks s p)) else [])"
  by (simp add: reject_def withCleanup_eq abort_microtasks rej_microtasks)

lemma resolve_microtasks:
  "microtasks (resolve p v s) =
     microtasks s @
       (if settlement (tasks s p) = Pending
        then map (\<lambda>x. (x, OkV v)) (reactions (tasks s p)) else [])"
  by (simp add: resolve_def withCleanup_eq abort_microtasks res_microtasks)

lemma apply_link_simps:
  "fst (apply_link l p s) = next_id s"
  "next_id (snd (apply_link l p s)) = Suc (next_id s)"
  "p \<noteq> next_id s \<Longrightarrow>
     abort_ref (tasks (snd (apply_link l p s)) (next_id s)) = abort_ref (tasks s p)"
  "p \<noteq> next_id s \<Longrightarrow>
     reject_ref (tasks (snd (apply_link l p s)) (next_id s)) = reject_ref (tasks s p)"
  by (cases l; simp)+

lemma derive_refs:
  assumes "p < next_id s"
  shows "fst (derive ls p s) < next_id (snd (derive ls p s))
       \<and> abort_ref (tasks (snd (derive ls p s)) (fst (derive ls p s))) = abort_ref (tasks s p)
       \<and> reject_ref (tasks (snd (derive ls p s)) (fst (derive ls p s))) = reject_ref (tasks s p)
       \<and> (ls \<noteq> [] \<longrightarrow> p < fst (derive ls p s))"
  using assms
proof (induction ls arbitrary: p s)
  case Nil
  then show ?case by simp
next
  case (Cons x ls)
  obtain bs l where x: "x = (bs, l)" by (cases x)
  let ?sb = "run bs s"
  let ?c = "next_id ?sb"
  let ?s1 = "snd (apply_link l p ?sb)"
  have ex: "p < next_id ?sb" "abort_ref (tasks ?sb p) = abort_ref (tasks s p)"
    "reject_ref (tasks ?sb p) = reject_ref (tasks s p)"
    using run_existing [OF Cons.prems, of bs] by simp_all
  have d: "derive (x # ls) p s = derive ls ?c ?s1"
    using x apply_link_simps(1) [of l p ?sb]
    by (cases "apply_link l p ?sb") simp
  have lt: "?c < next_id ?s1"
    by (simp add: apply_link_simps)
  have refs: "abort_ref (tasks ?s1 ?c) = abort_ref (tasks s p)"
    "reject_ref (tasks ?s1 ?c) = reject_ref (tasks s p)"
    using ex by (simp_all add: apply_link_simps)
  show ?case
    using Cons.IH [OF lt] refs ex(1) by (auto simp: d)
qed

lemma run_microtask_single:
  "microtasks s = [j] \<Longrightarrow> run_microtask s = run_job j (s\<lparr>microtasks := []\<rparr>)"
  by (simp add: run_microtask_def)

text \<open>
  C1. A task \<open>root\<close> is built by the constructor in any store. Whatever chain of
  \<^verbatim>\<open>then\<close>, \<^verbatim>\<open>catch\<close> and \<^verbatim>\<open>finally\<close> derives a task from it, with any history
  between the steps, calling \<^verbatim>\<open>abort\<close> or \<^verbatim>\<open>reject\<close> on the derived task calls the
  closure of \<open>root\<close>. In particular, when \<open>root\<close> has the default \<^verbatim>\<open>rejectOnAbort\<close>,
  has not aborted, and nothing else is attached to it or queued: after
  \<^verbatim>\<open>chained = root.then(f)\<close>, the call \<^verbatim>\<open>chained.abort(r)\<close> rejects \<open>root\<close> with
  \<open>r\<close> and leaves \<open>chained\<close> as it was, pending and not aborted; the job queued by the
  rejection of \<open>root\<close> then rejects \<open>chained\<close> with the same reason.
\<close>

theorem chained_tasks_share_root_operations:
  fixes root :: nat
  assumes "root = next_id s0" and "s = snd (construct a m s0)"
    and "c = fst (then_m root f None s)" and "s2 = snd (then_m root f None s)"
    and "s3 = abort_m c r s2"
  shows "abort_m (fst (derive ls root s)) x (snd (derive ls root s))
           = abort root x (snd (derive ls root s))
       \<and> reject_m (fst (derive ls root s)) x (snd (derive ls root s))
           = reject root x (snd (derive ls root s))
       \<and> (roa_of (options_or_empty a m) \<and> \<not> isAborted root s \<and> reactions (tasks s root) = []
            \<and> microtasks s = [] \<longrightarrow>
              settlement (tasks s3 root) = Rejected (abort_value r)
            \<and> tasks s3 c = tasks s2 c
            \<and> settlement (tasks s3 c) = Pending
            \<and> \<not> isAborted c s3
            \<and> microtasks s3 = [((Task c, f, None), ErrV (abort_value r))]
            \<and> settlement (tasks (run_microtask s3) c) = Rejected (abort_value r))"
proof -
  have lt: "root < next_id s"
    using assms(1,2) construct_next_id [of s0 a m] by simp
  have own: "abort_ref (tasks s root) = root" "reject_ref (tasks s root) = root"
    using assms(1,2) by simp_all
  have 1: "abort_m (fst (derive ls root s)) x (snd (derive ls root s))
           = abort root x (snd (derive ls root s))"
    using derive_refs [OF lt, of ls] own by (simp add: abort_m_def)
  have 2: "reject_m (fst (derive ls root s)) x (snd (derive ls root s))
           = reject root x (snd (derive ls root s))"
    using derive_refs [OF lt, of ls] own by (simp add: reject_m_def)
  have 3: "roa_of (options_or_empty a m) \<and> \<not> isAborted root s \<and> reactions (tasks s root) = []
            \<and> microtasks s = [] \<longrightarrow>
              settlement (tasks s3 root) = Rejected (abort_value r)
            \<and> tasks s3 c = tasks s2 c
            \<and> settlement (tasks s3 c) = Pending
            \<and> \<not> isAborted c s3
            \<and> microtasks s3 = [((Task c, f, None), ErrV (abort_value r))]
            \<and> settlement (tasks (run_microtask s3) c) = Rejected (abort_value r)"
  proof (intro impI)
    assume a: "roa_of (options_or_empty a m) \<and> \<not> isAborted root s \<and> reactions (tasks s root) = []
            \<and> microtasks s = []"
    have inv: "task_inv (tasks s root)"
      using assms(1,2) by (simp add: construct_task_inv)
    have cfg: "cfg_rejectOnAbort (tasks s root)"
      using a assms(1,2) by simp
    have na: "sig_reason (tasks s root) = None"
      using a by (simp add: isAborted_def)
    have pend: "settlement (tasks s root) = Pending"
      and rejl: "RejL \<in> snd ` set (listeners (tasks s root))"
      using inv cfg na by (simp_all add: task_inv_def)
    have c: "c = next_id s" and ne: "root \<noteq> next_id s"
      using assms(3) lt by simp_all
    have s3: "s3 = abort root r s2"
      using assms(3,4,5) ne own by (simp add: abort_m_def)
    have root2: "settlement (tasks s2 root) = Pending" "sig_reason (tasks s2 root) = None"
      "listeners (tasks s2 root) = listeners (tasks s root)"
      "reactions (tasks s2 root) = [(Task c, f, None)]"
      using assms(4) ne pend na a c by (simp_all add: then_m_reactions)
    have m2: "microtasks s2 = []"
      using assms(4) ne pend a by (simp add: then_m_microtasks)
    have child2: "settlement (tasks s2 c) = Pending" "sig_reason (tasks s2 c) = None"
      using assms(4) ne c by (simp_all add: then_m_child)
    have r3: "settlement (tasks s3 root) = Rejected (abort_value r)"
      using root2 rejl by (simp add: s3 abort_settlement)
    have same: "tasks s3 c = tasks s2 c"
      using c ne by (simp add: s3)
    have m3: "microtasks s3 = [((Task c, f, None), ErrV (abort_value r))]"
      using root2 rejl m2 by (simp add: s3 abort_microtasks)
    have fin: "settlement (tasks (run_microtask s3) c) = Rejected (abort_value r)"
      using same child2 by (simp add: run_microtask_single [OF m3] reject_settlement)
    from r3 same child2 m3 fin
    show "settlement (tasks s3 root) = Rejected (abort_value r)
            \<and> tasks s3 c = tasks s2 c
            \<and> settlement (tasks s3 c) = Pending
            \<and> \<not> isAborted c s3
            \<and> microtasks s3 = [((Task c, f, None), ErrV (abort_value r))]
            \<and> settlement (tasks (run_microtask s3) c) = Rejected (abort_value r)"
      by (simp add: isAborted_def)
  qed
  from 1 2 3 show ?thesis by blast
qed

theorem chained_tasks_share_root_operations_witness:
  "roa_of no_options
   \<and> \<not> isAborted 0 (snd (construct Undefined None empty_store))
   \<and> reactions (tasks (snd (construct Undefined None empty_store)) 0) = []
   \<and> microtasks (snd (construct Undefined None empty_store)) = []
   \<and> fst (derive [([], LThen None None), ([], LCatch None), ([], LFinally None)] 0
        (snd (construct Undefined None empty_store))) = 3
   \<and> abort_m (fst (derive [([], LThen None None), ([], LCatch None), ([], LFinally None)] 0
          (snd (construct Undefined None empty_store)))) (VStr ''stop'')
        (snd (derive [([], LThen None None), ([], LCatch None), ([], LFinally None)] 0
          (snd (construct Undefined None empty_store))))
       = abort 0 (VStr ''stop'')
        (snd (derive [([], LThen None None), ([], LCatch None), ([], LFinally None)] 0
          (snd (construct Undefined None empty_store))))
   \<and> settlement (tasks (abort_m 1 (VStr ''stop'')
        (snd (then_m 0 (Some (HFun (\<lambda>x. case x of VNum n \<Rightarrow> Return (VNum (n + 1)) | _ \<Rightarrow> Return x)))
          None (snd (construct Undefined None empty_store))))) 0) = Rejected (VStr ''stop'')
   \<and> settlement (tasks (abort_m 1 (VStr ''stop'')
        (snd (then_m 0 (Some (HFun (\<lambda>x. case x of VNum n \<Rightarrow> Return (VNum (n + 1)) | _ \<Rightarrow> Return x)))
          None (snd (construct Undefined None empty_store))))) 1) = Pending
   \<and> settlement (tasks (run_microtask (abort_m 1 (VStr ''stop'')
        (snd (then_m 0 (Some (HFun (\<lambda>x. case x of VNum n \<Rightarrow> Return (VNum (n + 1)) | _ \<Rightarrow> Return x)))
          None (snd (construct Undefined None empty_store)))))) 1) = Rejected (VStr ''stop'')"
proof -
  let ?s = "snd (construct Undefined None empty_store)"
  let ?f = "Some (HFun (\<lambda>x. case x of VNum n \<Rightarrow> Return (VNum (n + 1)) | _ \<Rightarrow> Return x))"
  let ?ls = "[([], LThen None None), ([], LCatch None), ([], LFinally None)]"
  have r: "0 = next_id empty_store"
    by (simp add: empty_store_def)
  have n: "next_id ?s = 1"
    by (simp add: model_defs)
  have c: "1 = fst (then_m 0 ?f None ?s)"
    using n by simp
  have h: "roa_of no_options" "\<not> isAborted 0 ?s" "reactions (tasks ?s 0) = []"
    "microtasks ?s = []"
    by (simp_all add: model_defs isAborted_def)
  have d: "fst (derive ?ls 0 ?s) = 3"
    using n by (simp add: case_prod_beta apply_link_simps)
  have ch: "settlement (tasks (snd (then_m 0 ?f None ?s)) 1) = Pending"
    using n then_m_child [of 0 ?s ?f None] by simp
  show ?thesis
    using chained_tasks_share_root_operations [where ls = ?ls and x = "VStr ''stop''"
        and r = "VStr ''stop''", OF r refl c refl refl] h d ch
    by (simp del: derive.simps)
qed

text \<open>
  C10. For a task \<open>root\<close> built by the constructor and any task derived from it by a
  chain, \<^verbatim>\<open>reject\<close> on the derived task is the \<^verbatim>\<open>reject\<close> closure of \<open>root\<close>: the
  call leaves the derived task itself as it was and rejects a pending \<open>root\<close>. After
  \<^verbatim>\<open>chained = root.catch(h)\<close> on a pending \<open>root\<close> with nothing else attached or
  queued, \<^verbatim>\<open>chained.reject(r)\<close> rejects \<open>root\<close> with \<open>r\<close>, and the queued job
  then calls \<open>h\<close> with \<open>r\<close> and fulfils \<open>chained\<close> with what \<open>h\<close> returns (or
  rejects it with what \<open>h\<close> throws).
\<close>

theorem reject_on_chained_task_rejects_root:
  fixes root :: nat
  assumes "root = next_id s0" and "s = snd (construct a m s0)"
    and "c = fst (catch_m root (Some (HFun h)) s)"
    and "s2 = snd (catch_m root (Some (HFun h)) s)"
    and "s3 = reject_m c r s2"
  shows "reject_m (fst (derive ls root s)) x (snd (derive ls root s))
           = reject root x (snd (derive ls root s))
       \<and> (ls \<noteq> [] \<longrightarrow>
            tasks (reject_m (fst (derive ls root s)) x (snd (derive ls root s)))
                (fst (derive ls root s))
              = tasks (snd (derive ls root s)) (fst (derive ls root s)))
       \<and> (settlement (tasks (snd (derive ls root s)) root) = Pending \<longrightarrow>
            settlement (tasks (reject_m (fst (derive ls root s)) x (snd (derive ls root s))) root)
              = Rejected x)
       \<and> (settlement (tasks s root) = Pending \<and> reactions (tasks s root) = []
            \<and> microtasks s = [] \<longrightarrow>
              settlement (tasks s3 root) = Rejected r
            \<and> tasks s3 c = tasks s2 c
            \<and> settlement (tasks s3 c) = Pending
            \<and> microtasks s3 = [((Task c, None, Some (HFun h)), ErrV r)]
            \<and> settlement (tasks (run_microtask s3) c)
                = (case h r of Return v \<Rightarrow> Fulfilled v | Throw e \<Rightarrow> Rejected e))"
proof -
  have lt: "root < next_id s"
    using assms(1,2) construct_next_id [of s0 a m] by simp
  have own: "reject_ref (tasks s root) = root"
    using assms(1,2) by simp
  note d = derive_refs [OF lt, of ls]
  have 1: "reject_m (fst (derive ls root s)) x (snd (derive ls root s))
           = reject root x (snd (derive ls root s))"
    using d own by (simp add: reject_m_def)
  have 2: "ls \<noteq> [] \<longrightarrow>
            tasks (reject_m (fst (derive ls root s)) x (snd (derive ls root s)))
                (fst (derive ls root s))
              = tasks (snd (derive ls root s)) (fst (derive ls root s))"
    using d by (auto simp: 1)
  have 3: "settlement (tasks (snd (derive ls root s)) root) = Pending \<longrightarrow>
            settlement (tasks (reject_m (fst (derive ls root s)) x (snd (derive ls root s))) root)
              = Rejected x"
    by (simp add: 1 reject_settlement)
  have 4: "settlement (tasks s root) = Pending \<and> reactions (tasks s root) = []
            \<and> microtasks s = [] \<longrightarrow>
              settlement (tasks s3 root) = Rejected r
            \<and> tasks s3 c = tasks s2 c
            \<and> settlement (tasks s3 c) = Pending
            \<and> microtasks s3 = [((Task c, None, Some (HFun h)), ErrV r)]
            \<and> settlement (tasks (run_microtask s3) c)
                = (case h r of Return v \<Rightarrow> Fulfilled v | Throw e \<Rightarrow> Rejected e)"
  proof (intro impI)
    assume a: "settlement (tasks s root) = Pending \<and> reactions (tasks s root) = []
            \<and> microtasks s = []"
    have c: "c = next_id s" and ne: "root \<noteq> next_id s"
      using assms(3) lt by simp_all
    have s3: "s3 = reject root r s2"
      using assms(3,4,5) ne own by (simp add: reject_m_def)
    have root2: "settlement (tasks s2 root) = Pending"
      "reactions (tasks s2 root) = [(Task c, None, Some (HFun h))]"
      using assms(4) ne a c by (simp_all add: catch_m_def then_m_reactions)
    have m2: "microtasks s2 = []"
      using assms(4) ne a by (simp add: catch_m_def then_m_microtasks)
    have child2: "settlement (tasks s2 c) = Pending"
      using assms(4) ne c by (simp add: catch_m_def then_m_child)
    have r3: "settlement (tasks s3 root) = Rejected r"
      using root2 by (simp add: s3 reject_settlement)
    have same: "tasks s3 c = tasks s2 c"
      using c ne by (simp add: s3)
    have m3: "microtasks s3 = [((Task c, None, Some (HFun h)), ErrV r)]"
      using root2 m2 by (simp add: s3 reject_microtasks)
    have fin: "settlement (tasks (run_microtask s3) c)
                = (case h r of Return v \<Rightarrow> Fulfilled v | Throw e \<Rightarrow> Rejected e)"
      using same child2
      by (cases "h r")
         (simp_all add: run_microtask_single [OF m3] reject_settlement resolve_settlement)
    from r3 same child2 m3 fin
    show "settlement (tasks s3 root) = Rejected r
            \<and> tasks s3 c = tasks s2 c
            \<and> settlement (tasks s3 c) = Pending
            \<and> microtasks s3 = [((Task c, None, Some (HFun h)), ErrV r)]
            \<and> settlement (tasks (run_microtask s3) c)
                = (case h r of Return v \<Rightarrow> Fulfilled v | Throw e \<Rightarrow> Rejected e)"
      by simp
  qed
  from 1 2 3 4 show ?thesis by blast
qed

theorem reject_on_chained_task_rejects_root_witness:
  "settlement (tasks (snd (construct Undefined None empty_store)) 0) = Pending
   \<and> reactions (tasks (snd (construct Undefined None empty_store)) 0) = []
   \<and> microtasks (snd (construct Undefined None empty_store)) = []
   \<and> settlement (tasks (reject_m 1 (VStr ''boom'')
        (snd (catch_m 0 (Some (HFun (\<lambda>e. Return (VStr ''recovered''))))
          (snd (construct Undefined None empty_store))))) 0) = Rejected (VStr ''boom'')
   \<and> settlement (tasks (reject_m 1 (VStr ''boom'')
        (snd (catch_m 0 (Some (HFun (\<lambda>e. Return (VStr ''recovered''))))
          (snd (construct Undefined None empty_store))))) 1) = Pending
   \<and> settlement (tasks (run_microtask (reject_m 1 (VStr ''boom'')
        (snd (catch_m 0 (Some (HFun (\<lambda>e. Return (VStr ''recovered''))))
          (snd (construct Undefined None empty_store)))))) 1) = Fulfilled (VStr ''recovered'')"
proof -
  let ?s = "snd (construct Undefined None empty_store)"
  let ?h = "\<lambda>e::val. Return (VStr ''recovered'')"
  have r: "0 = next_id empty_store"
    by (simp add: empty_store_def)
  have n: "next_id ?s = 1"
    by (simp add: model_defs)
  have c: "1 = fst (catch_m 0 (Some (HFun ?h)) ?s)"
    using n by simp
  have h: "settlement (tasks ?s 0) = Pending" "reactions (tasks ?s 0) = []"
    "microtasks ?s = []"
    by (simp_all add: model_defs)
  have ch: "settlement (tasks (snd (catch_m 0 (Some (HFun ?h)) ?s)) 1) = Pending"
    using n then_m_child [of 0 ?s None "Some (HFun ?h)"] by (simp add: catch_m_def)
  show ?thesis
    using reject_on_chained_task_rejects_root [where ls = "[]" and x = "VStr ''boom''"
        and r = "VStr ''boom''", OF r refl c refl refl] h ch
    by simp
qed

end
